theory Spec2Isabelle
  imports
    Complex_Main
    "HOL-Library.Word"
    "HOL-Library.Char_ord"
    "HOL-Library.List_Lexorder"
    "HOL-Library.Multiset"
    "HOL-Library.Sublist"
begin

section \<open>File entries and file maps (utils/file-utils)\<close>

text \<open>
  \<^verbatim>\<open>FileContent = { content: string; encoding: "utf-8" | "base64" }\<close> and
  \<^verbatim>\<open>FileMap = { [path: string]: string | FileContent }\<close>.
  A JavaScript object is modelled by the list of its own entries in the order
  \<^verbatim>\<open>Object.entries\<close> enumerates them; its keys are pairwise different. The lists
  record the order of insertion; that JavaScript enumerates keys which are array
  indices first is not modelled.
  Strings are lists of 8-bit characters, and \<^verbatim>\<open>s.length\<close> is \<open>length s\<close>.
\<close>

datatype Encoding = Utf8 | Base64

record FileContent =
  content :: string
  encoding :: Encoding

datatype FileEntry = Text string | Encoded FileContent

type_synonym FileMap = "(string \<times> FileEntry) list"

text \<open>
  Writing one entry into a list of entries: an existing key keeps its place, a new key
  is appended. This is \<^verbatim>\<open>Map.prototype.set\<close>, and the assignment
  \<^verbatim>\<open>obj[key] = value\<close> for every key that is stored as an own property.
\<close>

fun entry_set :: "string \<Rightarrow> 'v \<Rightarrow> (string \<times> 'v) list \<Rightarrow> (string \<times> 'v) list" where
  "entry_set k v [] = [(k, v)]"
| "entry_set k v ((k', v') # m) = (if k' = k then (k, v) # m else (k', v') # entry_set k v m)"

text \<open>
  \<^verbatim>\<open>obj[key] = value\<close> on an object that was created by \<^verbatim>\<open>{}\<close>. The key
  \<^verbatim>\<open>__proto__\<close> is not stored: the assignment runs the setter that the object
  inherits from \<^verbatim>\<open>Object.prototype\<close>, which replaces the prototype when the value
  is an object and does nothing when it is a string. Either way the object gets no own
  property, and \<^verbatim>\<open>Object.keys\<close>, \<^verbatim>\<open>Object.entries\<close> and
  \<^verbatim>\<open>JSON.stringify\<close> do not show the entry. An object literal with a computed
  key, \<^verbatim>\<open>{ [key]: value }\<close>, defines an own property for every key.
\<close>

definition obj_set :: "string \<Rightarrow> 'v \<Rightarrow> (string \<times> 'v) list \<Rightarrow> (string \<times> 'v) list" where
  "obj_set k v m = (if k = ''__proto__'' then m else entry_set k v m)"

fun getFileContent :: "FileEntry \<Rightarrow> string" where
  "getFileContent (Text s) = s"
| "getFileContent (Encoded fc) = content fc"

definition getFileSize :: "FileEntry \<Rightarrow> nat" where
  "getFileSize file = length (getFileContent file)"

definition calculateTotalSize :: "FileMap \<Rightarrow> nat" where
  "calculateTotalSize files = foldl (\<lambda>sum file. sum + getFileSize file) 0 (map snd files)"

definition MAX_CHUNK_SIZE :: int where
  "MAX_CHUNK_SIZE = 2 * 1024 * 1024"

definition CHUNK_THRESHOLD :: int where
  "CHUNK_THRESHOLD = 3 * 1024 * 1024"

definition needsChunkedUpload :: "FileMap \<Rightarrow> bool" where
  "needsChunkedUpload files = (int (calculateTotalSize files) > CHUNK_THRESHOLD)"

subsection \<open>chunkFiles\<close>

text \<open>
  The body of the \<^verbatim>\<open>for (const [filePath, file] of entries)\<close> loop of \<^verbatim>\<open>chunkFiles\<close>,
  on the loop state \<open>(chunks, currentChunk, currentSize)\<close>. The maximum chunk size is an
  integer (the source's default is \<open>2 * 1024 * 1024\<close>). The chunk of a file larger
  than the maximum is the object literal \<^verbatim>\<open>{ [filePath]: file }\<close>; any other file is
  added by the assignment \<^verbatim>\<open>currentChunk[filePath] = file\<close>, and its size is added to
  \<^verbatim>\<open>currentSize\<close> in any case.
\<close>

fun chunk_step ::
  "int \<Rightarrow> FileMap list \<times> FileMap \<times> nat \<Rightarrow> string \<times> FileEntry \<Rightarrow> FileMap list \<times> FileMap \<times> nat"
where
  "chunk_step maxChunkSize (chunks, currentChunk, currentSize) (filePath, file) =
     (let fileSize = getFileSize file in
      if int fileSize > maxChunkSize then
        (if currentChunk \<noteq> []
         then (chunks @ [currentChunk] @ [[(filePath, file)]], [], 0)
         else (chunks @ [[(filePath, file)]], currentChunk, currentSize))
      else
        (if int (currentSize + fileSize) > maxChunkSize \<and> currentChunk \<noteq> []
         then (chunks @ [currentChunk], obj_set filePath file [], 0 + fileSize)
         else (chunks, obj_set filePath file currentChunk, currentSize + fileSize)))"

fun chunk_loop ::
  "int \<Rightarrow> FileMap list \<times> FileMap \<times> nat \<Rightarrow> (string \<times> FileEntry) list \<Rightarrow> FileMap list \<times> FileMap \<times> nat"
where
  "chunk_loop maxChunkSize st [] = st"
| "chunk_loop maxChunkSize st (e # es) = chunk_loop maxChunkSize (chunk_step maxChunkSize st e) es"

text \<open>
  \<^verbatim>\<open>Object.entries(files).sort((a, b) => getFileSize(a[1]) - getFileSize(b[1]))\<close>:
  \<^verbatim>\<open>Array.prototype.sort\<close> is stable, as \<open>sort_key\<close> is.
\<close>

definition sorted_entries :: "FileMap \<Rightarrow> (string \<times> FileEntry) list" where
  "sorted_entries files = sort_key (\<lambda>e. getFileSize (snd e)) files"

definition chunkFiles :: "FileMap \<Rightarrow> int \<Rightarrow> FileMap list" where
  "chunkFiles files maxChunkSize =
     (case chunk_loop maxChunkSize ([], [], 0) (sorted_entries files) of
        (chunks, currentChunk, currentSize) \<Rightarrow>
          if currentChunk \<noteq> [] then chunks @ [currentChunk] else chunks)"

text \<open>
  Predicates used to state and prove the chunking result: the size bound of one chunk,
  the greedy cut between neighbouring chunks, and the invariant of the loop after the
  entries \<open>seen\<close> have been consumed.
\<close>

definition chunk_ok :: "int \<Rightarrow> FileMap \<Rightarrow> bool" where
  "chunk_ok M c = (c \<noteq> [] \<and> (int (calculateTotalSize c) \<le> M \<or> (\<exists>p f. c = [(p, f)] \<and> int (getFileSize f) > M)))"

fun greedy_cuts :: "int \<Rightarrow> FileMap list \<Rightarrow> bool" where
  "greedy_cuts M [] = True"
| "greedy_cuts M [c] = True"
| "greedy_cuts M (c # d # cs) =
     (int (calculateTotalSize c) + int (getFileSize (snd (hd d))) > M \<and> greedy_cuts M (d # cs))"

definition chunk_inv :: "int \<Rightarrow> (string \<times> FileEntry) list \<Rightarrow> FileMap list \<times> FileMap \<times> nat \<Rightarrow> bool" where
  "chunk_inv M seen st = (case st of (chunks, cur, sz) \<Rightarrow>
     concat chunks @ cur = seen \<and> sz = calculateTotalSize cur \<and>
     (cur \<noteq> [] \<longrightarrow> int sz \<le> M) \<and>
     (\<forall>c\<in>set chunks. chunk_ok M c) \<and>
     greedy_cuts M (chunks @ (if cur = [] then [] else [cur])) \<and>
     (cur = [] \<and> chunks \<noteq> [] \<longrightarrow> int (calculateTotalSize (last chunks)) > M))"


section \<open>Strings and paths\<close>

text \<open>
  The string methods and regular-expression tests the sources use, on 8-bit strings:
  \<^verbatim>\<open>s.startsWith(p)\<close>, a pattern \<^verbatim>\<open>/p$/\<close> (\<open>endsWith\<close>), an unanchored pattern
  \<^verbatim>\<open>/p/\<close> of literal characters (\<open>includes_str\<close>), \<^verbatim>\<open>s.split(c)\<close> for a one-character
  separator (never the empty list), and \<^verbatim>\<open>s.toLowerCase()\<close> on ASCII letters (the
  only use compares the result with ASCII extensions).
\<close>

definition startsWith :: "string \<Rightarrow> string \<Rightarrow> bool" where
  "startsWith s p = (take (length p) s = p)"

definition endsWith :: "string \<Rightarrow> string \<Rightarrow> bool" where
  "endsWith s p = (length p \<le> length s \<and> drop (length s - length p) s = p)"

fun includes_str :: "string \<Rightarrow> string \<Rightarrow> bool" where
  "includes_str [] p = (p = [])"
| "includes_str (c # cs) p = (startsWith (c # cs) p \<or> includes_str cs p)"

fun split_on :: "char \<Rightarrow> string \<Rightarrow> string list" where
  "split_on sep [] = [[]]"
| "split_on sep (c # cs) =
     (if c = sep then [] # split_on sep cs
      else (case split_on sep cs of [] \<Rightarrow> [[c]] | l # ls \<Rightarrow> (c # l) # ls))"

definition toLowerCase :: "string \<Rightarrow> string" where
  "toLowerCase s =
     map (\<lambda>c. if CHR ''A'' \<le> c \<and> c \<le> CHR ''Z'' then char_of (of_char c + (32::nat)) else c) s"

text \<open>
  Node's \<^verbatim>\<open>path.basename\<close> and \<^verbatim>\<open>path.extname\<close> (POSIX): the last component of the
  path, trailing slashes ignored; the extension runs from the last dot of that
  component to its end, and is empty when there is no dot, when the only dot is the
  first character, and for the component \<^verbatim>\<open>..\<close>.
\<close>

definition basename :: "string \<Rightarrow> string" where
  "basename p = rev (takeWhile (\<lambda>c. c \<noteq> CHR ''/'') (dropWhile (\<lambda>c. c = CHR ''/'') (rev p)))"

definition extname :: "string \<Rightarrow> string" where
  "extname p =
     (let b = basename p;
          ext = rev (takeWhile (\<lambda>c. c \<noteq> CHR ''.'') (rev b));
          pre = take (length b - length ext - 1) b
      in if CHR ''.'' \<notin> set b \<or> pre = [] \<or> b = ''..'' then [] else CHR ''.'' # ext)"

section \<open>File classifier\<close>

type_synonym byte = "8 word"

definition BINARY_EXTENSIONS :: "string list" where
  "BINARY_EXTENSIONS =
     [''.png'', ''.jpg'', ''.jpeg'', ''.gif'', ''.webp'', ''.ico'', ''.svg'', ''.bmp'', ''.tiff'',
      ''.avif'', ''.heic'', ''.heif'',
      ''.woff'', ''.woff2'', ''.ttf'', ''.eot'', ''.otf'',
      ''.mp3'', ''.mp4'', ''.webm'', ''.ogg'', ''.wav'', ''.m4a'', ''.flac'', ''.avi'', ''.mov'',
      ''.mkv'',
      ''.pdf'', ''.doc'', ''.docx'', ''.xls'', ''.xlsx'', ''.ppt'', ''.pptx'',
      ''.zip'', ''.tar'', ''.gz'', ''.bz2'', ''.7z'', ''.rar'',
      ''.exe'', ''.dll'', ''.so'', ''.dylib'', ''.bin'', ''.dat'', ''.db'', ''.sqlite'',
      ''.sqlite3'', ''.wasm'',
      ''.lockb'']"

definition isBinaryFile :: "string \<Rightarrow> bool" where
  "isBinaryFile filename = (let ext = toLowerCase (extname filename) in ext \<in> set BINARY_EXTENSIONS)"

text \<open>
  The \<^verbatim>\<open>for\<close> loop of \<^verbatim>\<open>containsBinaryContent\<close> over the sampled bytes: \<open>None\<close> is the
  early \<^verbatim>\<open>return true\<close> at a null byte, \<open>Some n\<close> the final value of \<^verbatim>\<open>nonPrintable\<close>.
\<close>

fun sniff_loop :: "byte list \<Rightarrow> nat \<Rightarrow> nat option" where
  "sniff_loop [] nonPrintable = Some nonPrintable"
| "sniff_loop (byte # rest) nonPrintable =
     (if byte = 0 then None
      else if byte < 32 \<and> byte \<noteq> 9 \<and> byte \<noteq> 10 \<and> byte \<noteq> 13
      then sniff_loop rest (nonPrintable + 1)
      else sniff_loop rest nonPrintable)"

text \<open>
  \<^verbatim>\<open>(nonPrintable / sampleSize) > 0.1\<close> is a comparison of doubles. Both operands are
  integers up to 8192, so the quotient is above the double \<^verbatim>\<open>0.1\<close> exactly when it is
  above one tenth, and the comparison is written over the reals; for an empty sample
  the source compares \<^verbatim>\<open>NaN\<close>, which is false, as is \<open>0 / 0 > 1 / 10\<close> here.
\<close>

definition containsBinaryContent :: "byte list \<Rightarrow> bool" where
  "containsBinaryContent buffer =
     (let sampleSize = min (length buffer) 8192 in
      case sniff_loop (take sampleSize buffer) 0 of
        None \<Rightarrow> True
      | Some nonPrintable \<Rightarrow> real nonPrintable / real sampleSize > 1 / 10)"

text \<open>
  The classification both readers compute inline:
  \<^verbatim>\<open>isBinaryByExt = isBinaryFile(name)\<close>,
  \<^verbatim>\<open>isBinaryByContent = !isBinaryByExt && containsBinaryContent(buffer)\<close>,
  \<^verbatim>\<open>treatAsBinary = isBinaryByExt || isBinaryByContent\<close>.
\<close>

definition treatAsBinary :: "string \<Rightarrow> byte list \<Rightarrow> bool" where
  "treatAsBinary fileName buffer =
     (let isBinaryByExt = isBinaryFile fileName;
          isBinaryByContent = (\<not> isBinaryByExt \<and> containsBinaryContent buffer)
      in isBinaryByExt \<or> isBinaryByContent)"

text \<open>The bytes of the sample that the sniff counts as non-printable.\<close>

definition nonPrintableBytes :: "byte list \<Rightarrow> byte list" where
  "nonPrintableBytes sample = filter (\<lambda>b. b < 32 \<and> b \<noteq> 9 \<and> b \<noteq> 10 \<and> b \<noteq> 13) sample"

subsection \<open>Exclusion\<close>

text \<open>
  The patterns of \<^verbatim>\<open>EXCLUDE_PATTERNS\<close> have three shapes: \<^verbatim>\<open>/^\.git$/\<close> (the whole path),
  \<^verbatim>\<open>/(^|\/)name\//\<close> (a directory component) and \<^verbatim>\<open>/name$/\<close> (a suffix).
\<close>

definition dir_pattern :: "string \<Rightarrow> string \<Rightarrow> bool" where
  "dir_pattern name p = (startsWith p (name @ ''/'') \<or> includes_str p (''/'' @ name @ ''/''))"

definition EXCLUDE_PATTERNS :: "(string \<Rightarrow> bool) list" where
  "EXCLUDE_PATTERNS =
     [\<lambda>p. p = ''.git'',
      dir_pattern ''.git'',
      dir_pattern ''node_modules'',
      dir_pattern ''.next'',
      dir_pattern ''dist'',
      dir_pattern ''build'',
      dir_pattern ''out'',
      dir_pattern ''.output'',
      dir_pattern ''.svelte-kit'',
      dir_pattern ''.vercel'',
      dir_pattern ''.turbo'',
      dir_pattern ''.cache'',
      dir_pattern ''.parcel-cache'',
      dir_pattern ''.vite'',
      dir_pattern ''.nuxt'',
      dir_pattern ''.expo'',
      \<lambda>p. endsWith p ''package-lock.json'',
      \<lambda>p. endsWith p ''yarn.lock'',
      \<lambda>p. endsWith p ''pnpm-lock.yaml'',
      \<lambda>p. endsWith p ''bun.lockb'',
      \<lambda>p. endsWith p ''.DS_Store'',
      \<lambda>p. endsWith p ''.log'',
      \<lambda>p. endsWith p ''Thumbs.db'',
      dir_pattern ''coverage'',
      dir_pattern ''.nyc_output'']"

definition ENV_PATTERNS :: "(string \<Rightarrow> bool) list" where
  "ENV_PATTERNS = [\<lambda>s. startsWith s ''.env'', \<lambda>s. includes_str s ''.env.'']"

definition shouldExclude :: "string \<Rightarrow> bool" where
  "shouldExclude filePath =
     (if list_ex (\<lambda>pattern. pattern filePath) EXCLUDE_PATTERNS then True
      else let fileName = last (split_on CHR ''/'' filePath) in
        if list_ex (\<lambda>pattern. pattern fileName) ENV_PATTERNS then True
        else False)"

section \<open>Payload assembler\<close>

text \<open>
  What the reader finds at a path: a regular file with its bytes, a regular file whose
  read fails, a directory with its entries in \<^verbatim>\<open>readdirSync\<close> order, a directory that
  cannot be listed, something that is neither, or a path whose \<^verbatim>\<open>statSync\<close> throws.
\<close>

datatype fs_node =
    RegularFile "byte list"
  | UnreadableFile
  | Directory "(string \<times> fs_node) list"
  | UnreadableDirectory
  | OtherNode
  | NoStat

text \<open>
  \<^verbatim>\<open>Buffer.toString("base64")\<close>, and \<^verbatim>\<open>Buffer.toString("utf-8")\<close> as a parameter
  \<open>utf8\<close> of the readers (its result on bytes outside ASCII is not an 8-bit string).
\<close>

definition b64_alphabet :: string where
  "b64_alphabet = ''ABCDEFGHIJKLMNOPQRSTUVWXYZabcdefghijklmnopqrstuvwxyz0123456789+/''"

definition b64_char :: "nat \<Rightarrow> char" where
  "b64_char n = b64_alphabet ! (n mod 64)"

fun toBase64 :: "byte list \<Rightarrow> string" where
  "toBase64 [] = []"
| "toBase64 [a] =
     (let n = unat a * 65536 in
      [b64_char (n div 262144), b64_char (n div 4096), CHR ''='', CHR ''=''])"
| "toBase64 [a, b] =
     (let n = unat a * 65536 + unat b * 256 in
      [b64_char (n div 262144), b64_char (n div 4096), b64_char (n div 64), CHR ''=''])"
| "toBase64 (a # b # c # rest) =
     (let n = unat a * 65536 + unat b * 256 + unat c in
      [b64_char (n div 262144), b64_char (n div 4096), b64_char (n div 64), b64_char n]
      @ toBase64 rest)"

definition read_entry :: "(byte list \<Rightarrow> string) \<Rightarrow> string \<Rightarrow> byte list \<Rightarrow> FileEntry" where
  "read_entry utf8 fileName buffer =
     (if treatAsBinary fileName buffer
      then Encoded \<lparr>content = toBase64 buffer, encoding = Base64\<rparr>
      else Text (utf8 buffer))"

text \<open>
  \<^verbatim>\<open>readProjectFiles\<close>: \<^verbatim>\<open>walkDir\<close> over the directory tree under the root. \<open>dir\<close> is
  the directory's path relative to the root (empty for the root itself), so that
  \<^verbatim>\<open>path.relative(rootDir, path.join(dir, entry))\<close> is \<open>rel_join dir entry\<close>.
\<close>

definition rel_join :: "string \<Rightarrow> string \<Rightarrow> string" where
  "rel_join dir entry = (if dir = [] then entry else dir @ ''/'' @ entry)"

fun walk_node :: "(byte list \<Rightarrow> string) \<Rightarrow> string \<Rightarrow> string \<Rightarrow> fs_node \<Rightarrow> FileMap \<Rightarrow> FileMap"
and walkDir :: "(byte list \<Rightarrow> string) \<Rightarrow> string \<Rightarrow> (string \<times> fs_node) list \<Rightarrow> FileMap \<Rightarrow> FileMap"
where
  "walk_node utf8 relativePath entry (RegularFile buffer) files =
     obj_set relativePath (read_entry utf8 entry buffer) files"
| "walk_node utf8 relativePath entry UnreadableFile files = files"
| "walk_node utf8 relativePath entry (Directory entries) files = walkDir utf8 relativePath entries files"
| "walk_node utf8 relativePath entry UnreadableDirectory files = files"
| "walk_node utf8 relativePath entry OtherNode files = files"
| "walk_node utf8 relativePath entry NoStat files = files"
| "walkDir utf8 dir [] files = files"
| "walkDir utf8 dir ((entry, node) # rest) files =
     (let relativePath = rel_join dir entry in
      walkDir utf8 dir rest
        (if shouldExclude relativePath then files
         else walk_node utf8 relativePath entry node files))"

text \<open>The outer call \<^verbatim>\<open>walkDir(rootDir)\<close>: a root that cannot be listed yields no files.\<close>

definition readProjectFiles :: "(byte list \<Rightarrow> string) \<Rightarrow> fs_node \<Rightarrow> FileMap" where
  "readProjectFiles utf8 rootDir =
     (case rootDir of Directory entries \<Rightarrow> walkDir utf8 [] entries [] | _ \<Rightarrow> [])"

definition ESSENTIAL_CONFIG_FILES :: "string list" where
  "ESSENTIAL_CONFIG_FILES =
     [''package.json'', ''tsconfig.json'', ''jsconfig.json'',
      ''vite.config.ts'', ''vite.config.js'', ''vite.config.mjs'',
      ''next.config.js'', ''next.config.mjs'', ''next.config.ts'',
      ''tailwind.config.js'', ''tailwind.config.ts'', ''tailwind.config.mjs'',
      ''postcss.config.js'', ''postcss.config.mjs'', ''postcss.config.cjs'',
      ''.prettierrc'', ''.prettierrc.json'', ''.eslintrc.json'', ''eslint.config.js'',
      ''index.html'']"

text \<open>\<^verbatim>\<open>Set.prototype.add\<close> on a set kept in insertion order.\<close>

definition set_add :: "'a \<Rightarrow> 'a list \<Rightarrow> 'a list" where
  "set_add x xs = (if x \<in> set xs then xs else xs @ [x])"

text \<open>
  \<^verbatim>\<open>readSpecificFiles\<close>. \<open>disk p\<close> is what lies at \<^verbatim>\<open>path.join(rootDir, p)\<close>;
  \<^verbatim>\<open>fs.existsSync\<close> holds where \<^verbatim>\<open>statSync\<close> would not throw.
\<close>

definition existsSync :: "fs_node \<Rightarrow> bool" where
  "existsSync node = (node \<noteq> NoStat)"

definition read_specific_step ::
  "(byte list \<Rightarrow> string) \<Rightarrow> (string \<Rightarrow> fs_node) \<Rightarrow> FileMap \<Rightarrow> string \<Rightarrow> FileMap" where
  "read_specific_step utf8 disk files relativePath =
     (if shouldExclude relativePath then files
      else case disk relativePath of
        RegularFile buffer \<Rightarrow>
          obj_set relativePath (read_entry utf8 (basename relativePath) buffer) files
      | _ \<Rightarrow> files)"

definition readSpecificFiles ::
  "(byte list \<Rightarrow> string) \<Rightarrow> (string \<Rightarrow> fs_node) \<Rightarrow> string list \<Rightarrow> bool \<Rightarrow> FileMap" where
  "readSpecificFiles utf8 disk filePaths includeEssentials =
     (let pathsToRead = foldl (\<lambda>s p. set_add p s) [] filePaths;
          pathsToRead =
            (if includeEssentials
             then foldl (\<lambda>s configFile. if existsSync (disk configFile) then set_add configFile s else s)
                    pathsToRead ESSENTIAL_CONFIG_FILES
             else pathsToRead)
      in foldl (read_specific_step utf8 disk) [] pathsToRead)"

text \<open>No key of a file map is an excluded path.\<close>

definition keys_ok :: "FileMap \<Rightarrow> bool" where
  "keys_ok files = (\<forall>k\<in>fst ` set files. \<not> shouldExclude k)"

subsection \<open>Sample inputs\<close>

text \<open>
  The decoding of a pure-ASCII buffer, a project whose root holds only a regular file
  \<^verbatim>\<open>package.json\<close>, a directory tree with environment files, and a project where
  \<^verbatim>\<open>package.json\<close> is a directory.
\<close>

definition ascii_text :: "byte list \<Rightarrow> string" where
  "ascii_text buffer = map (\<lambda>b. char_of (unat b)) buffer"

definition disk_package_json :: "string \<Rightarrow> fs_node" where
  "disk_package_json p = (if p = ''package.json'' then RegularFile [123, 125] else NoStat)"

definition sample_root :: fs_node where
  "sample_root =
     Directory [(''.env.production'', RegularFile [65]),
                (''secrets'', Directory [(''.env'', RegularFile [66])]),
                (''a.ts'', RegularFile [67])]"

definition disk_package_dir :: "string \<Rightarrow> fs_node" where
  "disk_package_dir p = (if p = ''package.json'' then Directory [] else NoStat)"

section \<open>Git utilities (utils/git-utils)\<close>

text \<open>
  \<^verbatim>\<open>s.trim()\<close> removes white space and line terminators at both ends; among the 8-bit
  characters these are tab, line feed, vertical tab, form feed, carriage return, space
  and no-break space.
\<close>

definition is_space :: "char \<Rightarrow> bool" where
  "is_space c = (of_char c \<in> {9, 10, 11, 12, 13, 32, 160 :: nat})"

definition trim :: "string \<Rightarrow> string" where
  "trim s = rev (dropWhile is_space (rev (dropWhile is_space s)))"

text \<open>\<^verbatim>\<open>s.replace(pattern, replacement)\<close> for a string pattern: the first occurrence only.\<close>

fun replace_first :: "string \<Rightarrow> string \<Rightarrow> string \<Rightarrow> string" where
  "replace_first pat rep [] = (if pat = [] then rep else [])"
| "replace_first pat rep (c # cs) =
     (if startsWith (c # cs) pat then rep @ drop (length pat) (c # cs)
      else c # replace_first pat rep cs)"

text \<open>
  \<open>run command\<close> is \<^verbatim>\<open>execSync(command, {cwd: projectPath, ...})\<close> in the project
  directory: \<open>None\<close> when it throws, the standard output otherwise.
\<close>

type_synonym git_runner = "string \<Rightarrow> string option"

definition gitExec :: "git_runner \<Rightarrow> string \<Rightarrow> string option" where
  "gitExec run command = (case run command of None \<Rightarrow> None | Some out \<Rightarrow> Some (trim out))"

definition isGitRepo :: "git_runner \<Rightarrow> bool" where
  "isGitRepo run = (gitExec run ''git rev-parse --is-inside-work-tree'' = Some ''true'')"

definition hasUncommittedChanges :: "git_runner \<Rightarrow> bool" where
  "hasUncommittedChanges run =
     (case gitExec run ''git status --porcelain'' of None \<Rightarrow> False | Some status \<Rightarrow> length status > 0)"

subsection \<open>sanitizeRemoteUrl\<close>

text \<open>\<^verbatim>\<open>url.replace(/\.git$/, "")\<close>.\<close>

definition strip_git_suffix :: "string \<Rightarrow> string" where
  "strip_git_suffix url = (if endsWith url ''.git'' then take (length url - 4) url else url)"

text \<open>
  \<^verbatim>\<open>s.replace(/^https?:\/\/[^@]+@/, "")\<close>: after \<^verbatim>\<open>http://\<close> or \<^verbatim>\<open>https://\<close>, one or more
  characters other than \<^verbatim>\<open>@\<close> and then an \<^verbatim>\<open>@\<close>; and \<^verbatim>\<open>s.replace(/^https?:\/\//, "")\<close>.
\<close>

definition http_scheme_rest :: "string \<Rightarrow> string option" where
  "http_scheme_rest s =
     (if startsWith s ''https://'' then Some (drop 8 s)
      else if startsWith s ''http://'' then Some (drop 7 s)
      else None)"

definition strip_http_userinfo :: "string \<Rightarrow> string" where
  "strip_http_userinfo s =
     (case http_scheme_rest s of
        None \<Rightarrow> s
      | Some rest \<Rightarrow>
          (let user = takeWhile (\<lambda>c. c \<noteq> CHR ''@'') rest in
           if user \<noteq> [] \<and> length user < length rest then drop (length user + 1) rest else s))"

definition strip_http_scheme :: "string \<Rightarrow> string" where
  "strip_http_scheme s = (case http_scheme_rest s of None \<Rightarrow> s | Some rest \<Rightarrow> rest)"

text \<open>
  \<open>parseURL s\<close> stands for \<^verbatim>\<open>new URL(s)\<close>: \<open>None\<close> when the constructor throws, the
  pair of \<^verbatim>\<open>host\<close> and \<^verbatim>\<open>pathname\<close> of the parsed URL otherwise.
\<close>

type_synonym url_parser = "string \<Rightarrow> (string \<times> string) option"

definition sanitizeRemoteUrl :: "url_parser \<Rightarrow> string option \<Rightarrow> string option" where
  "sanitizeRemoteUrl parseURL url =
     (case url of
        None \<Rightarrow> None
      | Some u \<Rightarrow>
          if u = [] then None
          else
            let cleaned = strip_git_suffix u in
            if startsWith cleaned ''git@''
            then Some (replace_first '':'' ''/'' (drop 4 cleaned))
            else
              (case parseURL cleaned of
                 Some (host, pathname) \<Rightarrow> Some (host @ pathname)
               | None \<Rightarrow> Some (strip_http_scheme (strip_http_userinfo cleaned))))"

record GitInfo =
  branch :: "string option"
  commitShort :: "string option"
  commitFull :: "string option"
  commitMessage :: "string option"
  remoteUrl :: "string option"
  isDirty :: bool
  timestamp :: "string option"

definition getGitInfo :: "url_parser \<Rightarrow> git_runner \<Rightarrow> GitInfo option" where
  "getGitInfo parseURL run =
     (if \<not> isGitRepo run then None
      else
        let branch' = gitExec run ''git rev-parse --abbrev-ref HEAD'';
            commitShort' = gitExec run ''git rev-parse --short HEAD'';
            commitFull' = gitExec run ''git rev-parse HEAD'';
            commitMessage' = gitExec run ''git log -1 --format=%s'';
            rawRemoteUrl = gitExec run ''git remote get-url origin'';
            timestamp' = gitExec run ''git log -1 --format=%cI'';
            isDirty' = hasUncommittedChanges run
        in Some \<lparr>branch = branch', commitShort = commitShort', commitFull = commitFull',
                  commitMessage = commitMessage', remoteUrl = sanitizeRemoteUrl parseURL rawRemoteUrl,
                  isDirty = isDirty', timestamp = timestamp'\<rparr>)"

subsection \<open>getDefaultBranch and getGitDiff\<close>

definition getDefaultBranch :: "git_runner \<Rightarrow> string option" where
  "getDefaultBranch run =
     (if \<not> isGitRepo run then None
      else
        (case List.find (\<lambda>branch'. gitExec run (''git rev-parse --verify '' @ branch') \<noteq> None)
                [''main'', ''master''] of
           Some branch' \<Rightarrow> Some branch'
         | None \<Rightarrow>
             (case gitExec run ''git symbolic-ref refs/remotes/origin/HEAD'' of
                None \<Rightarrow> None
              | Some originHead \<Rightarrow>
                  if originHead \<noteq> []
                  then Some (replace_first ''refs/remotes/origin/'' [] originHead)
                  else None)))"

record GitDiffResult =
  baseBranch :: string
  currentBranch :: string
  mergeBase :: string
  diff :: string
  diffStat :: string
  isTruncated :: bool
  totalBytes :: nat

text \<open>
  \<^verbatim>\<open>baseBranch || getDefaultBranch(projectPath)\<close>: an absent or empty override falls
  back to the default branch. Local variables that share a name with a record field
  carry a prime.
\<close>

definition base_or_default :: "git_runner \<Rightarrow> string option \<Rightarrow> string option" where
  "base_or_default run baseBranch' =
     (case baseBranch' of
        Some b \<Rightarrow> if b \<noteq> [] then Some b else getDefaultBranch run
      | None \<Rightarrow> getDefaultBranch run)"

definition getGitDiff :: "git_runner \<Rightarrow> int \<Rightarrow> string option \<Rightarrow> GitDiffResult option" where
  "getGitDiff run maxBytes baseBranch' =
     (if \<not> isGitRepo run then None
      else
        (case base_or_default run baseBranch' of
           None \<Rightarrow> None
         | Some defaultBranch \<Rightarrow>
             if defaultBranch = [] then None
             else
               (case gitExec run ''git rev-parse --abbrev-ref HEAD'' of
                  None \<Rightarrow> None
                | Some currentBranch' \<Rightarrow>
                    if currentBranch' = [] \<or> currentBranch' = defaultBranch then None
                    else
                      (case gitExec run (''git merge-base '' @ defaultBranch @ '' HEAD'') of
                         None \<Rightarrow> None
                       | Some mergeBase' \<Rightarrow>
                           if mergeBase' = [] then None
                           else
                             let diffStat' =
                                   (case gitExec run (''git diff --stat '' @ mergeBase' @ ''...HEAD'') of
                                      None \<Rightarrow> []
                                    | Some s \<Rightarrow> s)
                             in
                               (case gitExec run (''git diff '' @ mergeBase' @ ''...HEAD'') of
                                  None \<Rightarrow> None
                                | Some diff' \<Rightarrow>
                                    if diff' = [] then None
                                    else
                                      let isTruncated' = (int (length diff') > maxBytes);
                                          truncatedDiff =
                                            (if isTruncated'
                                             then take (nat maxBytes) diff' @ CHR 0x0A # ''... (truncated)''
                                             else diff')
                                      in Some \<lparr>baseBranch = defaultBranch,
                                                currentBranch = currentBranch',
                                                mergeBase = take 7 mergeBase',
                                                diff = truncatedDiff,
                                                diffStat = diffStat',
                                                isTruncated = isTruncated',
                                                totalBytes = length diff'\<rparr>)))))"

subsection \<open>Sample repositories\<close>

text \<open>
  A repository on branch \<^verbatim>\<open>feature\<close> with no \<^verbatim>\<open>main\<close>, no \<^verbatim>\<open>master\<close> and no
  \<^verbatim>\<open>origin/HEAD\<close>; a repository on branch \<^verbatim>\<open>feature\<close> that has no commit ahead of
  \<^verbatim>\<open>main\<close>, so that the diff against the merge base is empty; the same repository
  with one changed file; a URL parser that accepts nothing, and one that accepts a
  single URL.
\<close>

definition repo_no_base :: git_runner where
  "repo_no_base command =
     (if command = ''git rev-parse --is-inside-work-tree'' then Some (''true'' @ [CHR 0x0A])
      else if command = ''git rev-parse --abbrev-ref HEAD'' then Some (''feature'' @ [CHR 0x0A])
      else None)"

definition repo_no_changes :: git_runner where
  "repo_no_changes command =
     (if command = ''git rev-parse --is-inside-work-tree'' then Some (''true'' @ [CHR 0x0A])
      else if command = ''git rev-parse --verify main'' then Some (''0a1b2c3d4e'' @ [CHR 0x0A])
      else if command = ''git rev-parse --abbrev-ref HEAD'' then Some (''feature'' @ [CHR 0x0A])
      else if command = ''git merge-base main HEAD'' then Some (''0a1b2c3d4e'' @ [CHR 0x0A])
      else if command = ''git diff --stat 0a1b2c3d4e...HEAD'' then Some []
      else if command = ''git diff 0a1b2c3d4e...HEAD'' then Some []
      else None)"

definition repo_changed :: git_runner where
  "repo_changed command =
     (if command = ''git rev-parse --is-inside-work-tree'' then Some (''true'' @ [CHR 0x0A])
      else if command = ''git rev-parse --verify main'' then Some (''0a1b2c3d4e'' @ [CHR 0x0A])
      else if command = ''git rev-parse --abbrev-ref HEAD'' then Some (''feature'' @ [CHR 0x0A])
      else if command = ''git merge-base main HEAD'' then Some (''0a1b2c3d4e'' @ [CHR 0x0A])
      else if command = ''git diff --stat 0a1b2c3d4e...HEAD'' then Some '' 1 file changed''
      else if command = ''git diff 0a1b2c3d4e...HEAD''
        then Some ''diff --git a/src/App.tsx b/src/App.tsx''
      else if command = ''git remote get-url origin''
        then Some ''git@github.com:org/repo.git''
      else None)"

definition no_url_parser :: url_parser where
  "no_url_parser s = None"

definition sample_url_parser :: url_parser where
  "sample_url_parser s =
     (if s = ''https://token@github.com/org/repo'' then Some (''github.com'', ''/org/repo'')
      else None)"

section \<open>Share transfer (local MCP server)\<close>

subsection \<open>JavaScript values\<close>

text \<open>
  The values the relay handles: what \<^verbatim>\<open>JSON.parse\<close> returns, and \<^verbatim>\<open>undefined\<close> and
  \<^verbatim>\<open>NaN\<close>, which property reads and arithmetic add. \<open>truthy\<close> is the test of
  \<^verbatim>\<open>a || b\<close> and of \<^verbatim>\<open>if\<close>.
\<close>

datatype jsval =
    JUndefined
  | JNull
  | JBool bool
  | JNum real
  | JNaN
  | JStr string
  | JArr "jsval list"
  | JObj "(string \<times> jsval) list"

fun truthy :: "jsval \<Rightarrow> bool" where
  "truthy JUndefined = False"
| "truthy JNull = False"
| "truthy (JBool b) = b"
| "truthy (JNum x) = (x \<noteq> 0)"
| "truthy JNaN = False"
| "truthy (JStr s) = (s \<noteq> [])"
| "truthy (JArr xs) = True"
| "truthy (JObj kvs) = True"

definition js_or :: "jsval \<Rightarrow> jsval \<Rightarrow> jsval" where
  "js_or a b = (if truthy a then a else b)"

text \<open>
  \<^verbatim>\<open>data.name\<close> for the property names the relay reads (\<^verbatim>\<open>step\<close>, \<^verbatim>\<open>percentage\<close>,
  \<^verbatim>\<open>message\<close>, \<^verbatim>\<open>inflightUrl\<close>, ...): \<open>None\<close> is the \<^verbatim>\<open>TypeError\<close> of reading a property
  of \<^verbatim>\<open>null\<close> or \<^verbatim>\<open>undefined\<close>; a parsed object gives the value of its last entry for the
  name, everything else \<^verbatim>\<open>undefined\<close>.
\<close>

definition get_prop :: "jsval \<Rightarrow> string \<Rightarrow> jsval option" where
  "get_prop d name =
     (case d of
        JNull \<Rightarrow> None
      | JUndefined \<Rightarrow> None
      | JObj kvs \<Rightarrow> Some (case map_of (rev kvs) name of Some v \<Rightarrow> v | None \<Rightarrow> JUndefined)
      | _ \<Rightarrow> Some JUndefined)"

text \<open>
  \<^verbatim>\<open>new Error(v).message === "Share failed"\<close>: the message is \<^verbatim>\<open>String(v)\<close>, which is the
  text for a string, the element's string for an array of one element that is neither
  \<^verbatim>\<open>null\<close> nor \<^verbatim>\<open>undefined\<close>, and otherwise a text that differs from
  \<^verbatim>\<open>"Share failed"\<close> (a number, a keyword, \<^verbatim>\<open>[object Object]\<close>, a text with a comma or
  the empty text).
\<close>

fun message_is_share_failed :: "jsval \<Rightarrow> bool" where
  "message_is_share_failed (JStr s) = (s = ''Share failed'')"
| "message_is_share_failed (JArr [x]) = message_is_share_failed x"
| "message_is_share_failed v = False"

text \<open>
  \<^verbatim>\<open>ToNumber\<close>: \<open>None\<close> is \<^verbatim>\<open>NaN\<close>. The conversion of strings, arrays and objects is
  the parameter \<open>coerce\<close>.
\<close>

definition to_number :: "(jsval \<Rightarrow> real option) \<Rightarrow> jsval \<Rightarrow> real option" where
  "to_number coerce v =
     (case v of
        JNum x \<Rightarrow> Some x
      | JNaN \<Rightarrow> None
      | JUndefined \<Rightarrow> None
      | JNull \<Rightarrow> Some 0
      | JBool b \<Rightarrow> Some (if b then 1 else 0)
      | _ \<Rightarrow> coerce v)"

text \<open>Decimal digits of a natural number, as a template literal prints it.\<close>

fun show_nat :: "nat \<Rightarrow> string" where
  "show_nat n =
     (if n < 10 then [char_of (48 + n)]
      else show_nat (n div 10) @ [char_of (48 + n mod 10)])"

declare show_nat.simps [simp del]

subsection \<open>The event stream\<close>

text \<open>
  An error that leaves a function: an \<^verbatim>\<open>Error\<close> the program constructs, with its
  message, or an error the runtime raises (\<^verbatim>\<open>TypeError\<close>, \<^verbatim>\<open>SyntaxError\<close>, a failed
  \<^verbatim>\<open>fetch\<close>), whose message is the engine's text.
\<close>

datatype thrown = Error string | RuntimeError

datatype 'a outcome = Resolved 'a | Rejected thrown

text \<open>
  The calls of the two callbacks, in order. In this program both callbacks only log and
  notify, and swallow their own failures, so a call never throws.
\<close>

datatype callback = OnProgress jsval jsval | OnError jsval

record ShareResult =
  inflightUrl :: jsval
  versionId :: jsval
  projectId :: jsval
  sandboxId :: jsval
  sandboxUrl :: jsval
  previewUrl :: jsval
  ngrokUrl :: jsval
  diffSummary :: jsval

text \<open>The object literal returned for a \<^verbatim>\<open>complete\<close> event; each read may throw.\<close>

definition complete_result :: "jsval \<Rightarrow> ShareResult option" where
  "complete_result d =
     (case (get_prop d ''inflightUrl'', get_prop d ''versionId'', get_prop d ''projectId'',
            get_prop d ''sandboxId'', get_prop d ''sandboxUrl'', get_prop d ''previewUrl'',
            get_prop d ''ngrokUrl'', get_prop d ''diffSummary'') of
        (Some v1, Some v2, Some v3, Some v4, Some v5, Some v6, Some v7, Some v8) \<Rightarrow>
          Some \<lparr>inflightUrl = v1, versionId = v2, projectId = v3, sandboxId = v4,
                sandboxUrl = v5, previewUrl = js_or v6 v5, ngrokUrl = v7, diffSummary = v8\<rparr>
      | _ \<Rightarrow> None)"

text \<open>
  How the \<^verbatim>\<open>try\<close> block of one \<^verbatim>\<open>data:\<close> line ends: it completes (\<^verbatim>\<open>currentEvent\<close> is
  then reset), its exception is swallowed by \<^verbatim>\<open>continue\<close> in the \<^verbatim>\<open>catch\<close> (no reset),
  the function returns, or the \<^verbatim>\<open>catch\<close> rethrows.
\<close>

datatype line_result = Completed | Swallowed | Returned ShareResult | Rethrown thrown

text \<open>
  The body of the \<^verbatim>\<open>try\<close> for parsed \<open>data\<close>, with the \<^verbatim>\<open>catch\<close> applied:
  \<^verbatim>\<open>if (e instanceof Error && e.message !== "Share failed") continue; throw e\<close>.
  \<open>mapPct\<close> is what the progress branch does to \<^verbatim>\<open>data.percentage || 0\<close>: nothing in
  \<^verbatim>\<open>callShareWithSSE\<close>, the remapping in \<^verbatim>\<open>callChunkedShare\<close>.
\<close>

definition handle_data ::
  "(jsval \<Rightarrow> jsval) \<Rightarrow> string \<Rightarrow> jsval \<Rightarrow> callback list \<Rightarrow> callback list \<times> line_result" where
  "handle_data mapPct currentEvent d cbs =
     (case (if currentEvent = ''progress'' then Some True
            else if currentEvent = [] then map_option truthy (get_prop d ''step'')
            else Some False) of
        None \<Rightarrow> (cbs, Swallowed)
      | Some True \<Rightarrow>
          (case (get_prop d ''percentage'', get_prop d ''step'') of
             (Some pct, Some step) \<Rightarrow>
               (cbs @ [OnProgress (mapPct (js_or pct (JNum 0))) (js_or step (JStr ''Processing...''))],
                Completed)
           | _ \<Rightarrow> (cbs, Swallowed))
      | Some False \<Rightarrow>
          if currentEvent = ''complete'' then
            (case complete_result d of
               Some r \<Rightarrow> (cbs, Returned r)
             | None \<Rightarrow> (cbs, Swallowed))
          else if currentEvent = ''error'' then
            (case get_prop d ''message'' of
               None \<Rightarrow> (cbs, Swallowed)
             | Some m \<Rightarrow>
                 (let msg = js_or m (JStr ''Share failed'') in
                  (cbs @ [OnError msg],
                   if message_is_share_failed msg then Rethrown (Error ''Share failed'')
                   else Swallowed)))
          else (cbs, Completed))"

text \<open>
  The \<^verbatim>\<open>for (const line of lines)\<close> loop of one read. \<open>parse\<close> stands for \<^verbatim>\<open>JSON.parse\<close>
  (\<open>None\<close>: a \<^verbatim>\<open>SyntaxError\<close>, which the \<^verbatim>\<open>catch\<close> swallows). The result \<open>None\<close> means
  the loop ran to its end.
\<close>

fun sse_lines ::
  "(string \<Rightarrow> jsval option) \<Rightarrow> (jsval \<Rightarrow> jsval) \<Rightarrow> string \<Rightarrow> string list \<Rightarrow> callback list
   \<Rightarrow> callback list \<times> ShareResult outcome option"
where
  "sse_lines parse mapPct currentEvent [] cbs = (cbs, None)"
| "sse_lines parse mapPct currentEvent (line # rest) cbs =
     (if startsWith line ''event: '' then sse_lines parse mapPct (trim (drop 7 line)) rest cbs
      else if startsWith line ''data: '' then
        (case parse (drop 6 line) of
           None \<Rightarrow> sse_lines parse mapPct currentEvent rest cbs
         | Some d \<Rightarrow>
             (case handle_data mapPct currentEvent d cbs of
                (cbs', Completed) \<Rightarrow> sse_lines parse mapPct [] rest cbs'
              | (cbs', Swallowed) \<Rightarrow> sse_lines parse mapPct currentEvent rest cbs'
              | (cbs', Returned r) \<Rightarrow> (cbs', Some (Resolved r))
              | (cbs', Rethrown t) \<Rightarrow> (cbs', Some (Rejected t))))
      else sse_lines parse mapPct currentEvent rest cbs)"

text \<open>
  How the reads of a response body end: \<^verbatim>\<open>reader.read()\<close> reports \<^verbatim>\<open>done\<close> (the
  connection was closed), or it rejects (the connection broke).
\<close>

datatype stream_end = Done | ReadFailed

text \<open>
  The \<^verbatim>\<open>while (true)\<close> loop over the reads of the response body: the decoded text of
  each read, in order, and how the last call of \<^verbatim>\<open>reader.read()\<close> ends.
  \<^verbatim>\<open>currentEvent\<close> is declared inside the loop, so every read starts with the empty
  event name. \<open>endMessage\<close> is the message of the error thrown after the loop; the
  rejection of \<^verbatim>\<open>reader.read()\<close> is awaited outside the \<^verbatim>\<open>try\<close> and leaves the
  function as it is.
\<close>

fun sse_read ::
  "(string \<Rightarrow> jsval option) \<Rightarrow> (jsval \<Rightarrow> jsval) \<Rightarrow> string \<Rightarrow> stream_end \<Rightarrow> string \<Rightarrow> string list
   \<Rightarrow> callback list \<Rightarrow> callback list \<times> ShareResult outcome"
where
  "sse_read parse mapPct endMessage closing buffer [] cbs =
     (cbs, case closing of
             Done \<Rightarrow> Rejected (Error endMessage)
           | ReadFailed \<Rightarrow> Rejected RuntimeError)"
| "sse_read parse mapPct endMessage closing buffer (v # later) cbs =
     (let lines = split_on (CHR 0x0A) (buffer @ v);
          buffer' = last lines
      in case sse_lines parse mapPct [] (butlast lines) cbs of
           (cbs', Some out) \<Rightarrow> (cbs', out)
         | (cbs', None) \<Rightarrow> sse_read parse mapPct endMessage closing buffer' later cbs')"

text \<open>
  A response of \<^verbatim>\<open>fetch\<close>: \<^verbatim>\<open>ok\<close>, \<^verbatim>\<open>status\<close>, the body as \<^verbatim>\<open>text()\<close> returns it,
  the reads of \<^verbatim>\<open>body.getReader()\<close> (\<open>None\<close> when \<^verbatim>\<open>response.body\<close> is null) and how
  they end. A \<^verbatim>\<open>fetch\<close> that rejects is \<open>None\<close>.
\<close>

record response =
  ok :: bool
  status :: nat
  text_body :: string
  reads :: "string list option"
  last_read :: stream_end

subsection \<open>callShareWithSSE\<close>

definition callShareWithSSE ::
  "(string \<Rightarrow> jsval option) \<Rightarrow> response option \<Rightarrow> callback list \<times> ShareResult outcome" where
  "callShareWithSSE parse fetched =
     (case fetched of
        None \<Rightarrow> ([], Rejected RuntimeError)
      | Some resp \<Rightarrow>
          if \<not> ok resp then
            ([], Rejected (Error (''Share failed ('' @ show_nat (status resp) @ ''): ''
                   @ (if text_body resp \<noteq> [] then text_body resp else ''Empty response''))))
          else
            (case reads resp of
               None \<Rightarrow> ([], Rejected (Error ''No response body''))
             | Some rs \<Rightarrow>
                 sse_read parse (\<lambda>pct. pct) ''Share stream ended without completion''
                   (last_read resp) [] rs []))"

subsection \<open>callChunkedShare\<close>

text \<open>
  \<^verbatim>\<open>10 + Math.floor((i / chunks.length) * 30)\<close> and
  \<^verbatim>\<open>45 + Math.floor((serverPct / 100) * 55)\<close>. The arithmetic is over the reals: for
  three chunks, and for whole percentages from 0 to 100, the doubles give the same
  integers, and rounding keeps the order of the quotients.
\<close>

definition chunkProgress :: "nat \<Rightarrow> nat \<Rightarrow> int" where
  "chunkProgress i n = 10 + \<lfloor>(real i / real n) * 30\<rfloor>"

definition mappedPct :: "real \<Rightarrow> int" where
  "mappedPct serverPct = 45 + \<lfloor>(serverPct / 100) * 55\<rfloor>"

definition remap_progress :: "(jsval \<Rightarrow> real option) \<Rightarrow> jsval \<Rightarrow> jsval" where
  "remap_progress coerce serverPct =
     (case to_number coerce serverPct of
        Some x \<Rightarrow> JNum (of_int (mappedPct x))
      | None \<Rightarrow> JNaN)"

definition getChunkStats :: "FileMap list \<Rightarrow> nat \<times> nat list \<times> nat \<times> nat" where
  "getChunkStats chunks =
     (let chunkSizes = map calculateTotalSize chunks;
          totalFiles = foldl (\<lambda>sum chunk. sum + length chunk) 0 chunks;
          totalSize = foldl (\<lambda>sum size. sum + size) 0 chunkSizes
      in (length chunks, chunkSizes, totalFiles, totalSize))"

text \<open>
  \<^verbatim>\<open>await response.json()\<close> followed by the property reads of the caller: an error of
  the runtime when the text does not parse or the value is \<^verbatim>\<open>null\<close>.
\<close>

definition json_object :: "(string \<Rightarrow> jsval option) \<Rightarrow> response \<Rightarrow> bool" where
  "json_object parse resp =
     (case parse (text_body resp) of
        None \<Rightarrow> False
      | Some v \<Rightarrow> get_prop v ''uploaded'' \<noteq> None)"

text \<open>
  The upload loop \<^verbatim>\<open>for (let i = 0; i < chunks.length; i++)\<close>, from index \<open>i\<close> on, over
  the chunks still to send; \<open>n\<close> is \<^verbatim>\<open>chunks.length\<close> and \<open>upload i\<close> the response to
  the upload of chunk \<open>i\<close>. The result \<open>None\<close> means every chunk was uploaded.
  \<open>upload_message\<close> is the step text
  \<^verbatim>\<open>Uploading chunk ${i + 1}/${chunks.length} (${chunkFileCount} files)...\<close>.
\<close>

definition upload_message :: "nat \<Rightarrow> nat \<Rightarrow> nat \<Rightarrow> string" where
  "upload_message i n chunkFileCount =
     ''Uploading chunk '' @ show_nat (i + 1) @ ''/'' @ show_nat n
       @ '' ('' @ show_nat chunkFileCount @ '' files)...''"

fun upload_loop ::
  "(string \<Rightarrow> jsval option) \<Rightarrow> (nat \<Rightarrow> response option) \<Rightarrow> nat \<Rightarrow> nat \<Rightarrow> FileMap list
   \<Rightarrow> callback list \<Rightarrow> callback list \<times> thrown option"
where
  "upload_loop parse upload n i [] cbs = (cbs, None)"
| "upload_loop parse upload n i (chunk # rest) cbs =
     (let chunkFileCount = length chunk;
          cbs' = cbs @ [OnProgress (JNum (of_int (chunkProgress i n)))
                                   (JStr (upload_message i n chunkFileCount))]
      in case upload i of
           None \<Rightarrow> (cbs', Some RuntimeError)
         | Some resp \<Rightarrow>
             if \<not> ok resp
             then (cbs', Some (Error (''Failed to upload chunk '' @ show_nat (i + 1) @ '': ''
                                       @ text_body resp)))
             else if \<not> json_object parse resp then (cbs', Some RuntimeError)
             else upload_loop parse upload n (i + 1) rest cbs')"

record chunked_network =
  initResponse :: "response option"
  uploadResponse :: "nat \<Rightarrow> response option"
  finalizeResponse :: "response option"

text \<open>
  \<^verbatim>\<open>callChunkedShare\<close>, from the chunks on: \<open>callChunkedShare\<close> below passes
  \<^verbatim>\<open>chunkFiles(files)\<close>.
\<close>

definition chunked_share ::
  "(string \<Rightarrow> jsval option) \<Rightarrow> (jsval \<Rightarrow> real option) \<Rightarrow> chunked_network \<Rightarrow> FileMap list
   \<Rightarrow> callback list \<times> ShareResult outcome" where
  "chunked_share parse coerce net chunks =
     (let totalChunks = fst (getChunkStats chunks);
          cbs = [OnProgress (JNum 5) (JStr (''Splitting into '' @ show_nat totalChunks @ '' chunks...'')),
                 OnProgress (JNum 8) (JStr ''Initializing chunked upload...'')]
      in case initResponse net of
           None \<Rightarrow> (cbs, Rejected RuntimeError)
         | Some initResp \<Rightarrow>
             if \<not> ok initResp
             then (cbs, Rejected (Error (''Failed to initialize chunked upload: '' @ text_body initResp)))
             else
               (case parse (text_body initResp) of
                  None \<Rightarrow> (cbs, Rejected RuntimeError)
                | Some session \<Rightarrow>
                    if get_prop session ''sessionId'' = None then (cbs, Rejected RuntimeError)
                    else
                      (case upload_loop parse (uploadResponse net) (length chunks) 0 chunks cbs of
                         (cbs', Some t) \<Rightarrow> (cbs', Rejected t)
                       | (cbs', None) \<Rightarrow>
                           (let cbs'' = cbs' @ [OnProgress (JNum 42)
                                                  (JStr ''Finalizing upload and starting analysis...'')]
                            in case finalizeResponse net of
                                 None \<Rightarrow> (cbs'', Rejected RuntimeError)
                               | Some finalResp \<Rightarrow>
                                   if \<not> ok finalResp
                                   then (cbs'', Rejected (Error (''Failed to finalize chunked upload: ''
                                                                  @ text_body finalResp)))
                                   else
                                     (case reads finalResp of
                                        None \<Rightarrow> (cbs'', Rejected (Error ''No response body''))
                                      | Some rs \<Rightarrow>
                                          sse_read parse (remap_progress coerce)
                                            ''Chunked share stream ended without completion''
                                            (last_read finalResp) [] rs cbs'')))))"

definition callChunkedShare ::
  "(string \<Rightarrow> jsval option) \<Rightarrow> (jsval \<Rightarrow> real option) \<Rightarrow> chunked_network \<Rightarrow> FileMap
   \<Rightarrow> callback list \<times> ShareResult outcome" where
  "callChunkedShare parse coerce net files =
     chunked_share parse coerce net (chunkFiles files MAX_CHUNK_SIZE)"

subsection \<open>Predicates on streams and exchanges\<close>

text \<open>
  What a stream holds, read off its text alone. A payload of the event \<open>name\<close> is the
  parsed text of a \<^verbatim>\<open>data:\<close> line that follows an \<^verbatim>\<open>event:\<close> line with that name in the
  same read, with no other \<^verbatim>\<open>event:\<close> line in between (\<open>named\<close>: such an event line has
  been passed). The last, unterminated piece of a read is carried over to the next
  read, the event name is not. \<open>accepts\<close> selects the payloads that count.
\<close>

fun payload_in_lines ::
  "(string \<Rightarrow> jsval option) \<Rightarrow> string \<Rightarrow> (jsval \<Rightarrow> bool) \<Rightarrow> bool \<Rightarrow> string list \<Rightarrow> bool" where
  "payload_in_lines parse name accepts named [] = False"
| "payload_in_lines parse name accepts named (line # rest) =
     (if startsWith line ''event: ''
      then payload_in_lines parse name accepts (trim (drop 7 line) = name) rest
      else if named \<and> startsWith line ''data: ''
              \<and> (case parse (drop 6 line) of None \<Rightarrow> False | Some d \<Rightarrow> accepts d)
      then True
      else payload_in_lines parse name accepts named rest)"

fun payload_in_reads ::
  "(string \<Rightarrow> jsval option) \<Rightarrow> string \<Rightarrow> (jsval \<Rightarrow> bool) \<Rightarrow> string \<Rightarrow> string list \<Rightarrow> bool" where
  "payload_in_reads parse name accepts buffer [] = False"
| "payload_in_reads parse name accepts buffer (v # later) =
     (let lines = split_on (CHR 0x0A) (buffer @ v)
      in payload_in_lines parse name accepts False (butlast lines)
         \<or> payload_in_reads parse name accepts (last lines) later)"

text \<open>
  A \<^verbatim>\<open>complete\<close> event has been parsed: the stream holds a payload of the event
  \<^verbatim>\<open>complete\<close> that is not \<^verbatim>\<open>null\<close>. The server has sent the terminal error: the
  stream holds a payload of the event \<^verbatim>\<open>error\<close> whose message is absent or falsy, or
  reads \<^verbatim>\<open>Share failed\<close>: the one error of an \<^verbatim>\<open>error\<close> event that the \<^verbatim>\<open>catch\<close>
  rethrows.
\<close>

definition nullish :: "jsval \<Rightarrow> bool" where
  "nullish d = (case d of JNull \<Rightarrow> True | JUndefined \<Rightarrow> True | _ \<Rightarrow> False)"

definition complete_parsed :: "(string \<Rightarrow> jsval option) \<Rightarrow> string list \<Rightarrow> bool" where
  "complete_parsed parse rs = payload_in_reads parse ''complete'' (\<lambda>d. \<not> nullish d) [] rs"



text \<open>
  An exchange in which the init request and the upload of each of \<open>n\<close> chunks succeed.
\<close>

definition init_and_uploads_ok :: "(string \<Rightarrow> jsval option) \<Rightarrow> chunked_network \<Rightarrow> nat \<Rightarrow> bool" where
  "init_and_uploads_ok parse net n =
     ((\<exists>r s. initResponse net = Some r \<and> ok r \<and> parse (text_body r) = Some s
              \<and> get_prop s ''sessionId'' \<noteq> None)
      \<and> (\<forall>i<n. \<exists>r. uploadResponse net i = Some r \<and> ok r \<and> json_object parse r))"

subsection \<open>Sample exchanges\<close>

text \<open>
  \<open>sample_parse\<close> agrees with \<^verbatim>\<open>JSON.parse\<close> on the texts it knows and rejects all
  others; \<open>sse_text\<close> ends every line with a line feed.
\<close>

definition sample_parse :: "string \<Rightarrow> jsval option" where
  \<open>sample_parse s =
     (if s = ''{"percentage":50,"step":"x"}''
        then Some (JObj [(''percentage'', JNum 50), (''step'', JStr ''x'')])
      else if s = ''{"inflightUrl":"https://x"}''
        then Some (JObj [(''inflightUrl'', JStr ''https://x'')])
      else if s = ''{"message":"Build failed"}''
        then Some (JObj [(''message'', JStr ''Build failed'')])
      else if s = ''{"message":"Share failed"}''
        then Some (JObj [(''message'', JStr ''Share failed'')])
      else if s = ''{"sessionId":"s1","sandboxId":"b1"}''
        then Some (JObj [(''sessionId'', JStr ''s1''), (''sandboxId'', JStr ''b1'')])
      else if s = ''{"uploaded":1}'' then Some (JObj [(''uploaded'', JNum 1)])
      else if s = ''{"percentage":0,"step":"start"}''
        then Some (JObj [(''percentage'', JNum 0), (''step'', JStr ''start'')])
      else if s = ''{"percentage":100,"step":"done"}''
        then Some (JObj [(''percentage'', JNum 100), (''step'', JStr ''done'')])
      else if s = ''null'' then Some JNull
      else if s = ''{}'' then Some (JObj [])
      else None)\<close>

definition no_coercion :: "jsval \<Rightarrow> real option" where
  "no_coercion v = None"

definition sse_text :: "string list \<Rightarrow> string" where
  "sse_text lines = concat (map (\<lambda>l. l @ [CHR 0x0A]) lines)"

definition stream_response :: "string list \<Rightarrow> response" where
  "stream_response rs =
     \<lparr>ok = True, status = 200, text_body = [], reads = Some rs, last_read = Done\<rparr>"

definition json_response :: "string \<Rightarrow> response" where
  "json_response body =
     \<lparr>ok = True, status = 200, text_body = body, reads = None, last_read = Done\<rparr>"

definition progress_only_stream :: "string list" where
  \<open>progress_only_stream =
     [sse_text [''event: progress'', ''data: {"percentage":50,"step":"x"}'', []]]\<close>

definition progress_complete_stream :: "string list" where
  \<open>progress_complete_stream =
     [sse_text [''event: progress'', ''data: {"percentage":50,"step":"x"}'', [],
                ''event: complete'', ''data: {"inflightUrl":"https://x"}'', []]]\<close>

definition build_failed_stream :: "string list" where
  \<open>build_failed_stream =
     [sse_text [''event: error'', ''data: {"message":"Build failed"}'', []]]\<close>

definition build_failed_then_complete_stream :: "string list" where
  \<open>build_failed_then_complete_stream =
     [sse_text [''event: error'', ''data: {"message":"Build failed"}'', [],
                ''event: complete'', ''data: {"inflightUrl":"https://x"}'', []]]\<close>

definition share_failed_stream :: "string list" where
  \<open>share_failed_stream =
     [sse_text [''event: error'', ''data: {"message":"Share failed"}'', []]]\<close>

definition sample_network :: "string list \<Rightarrow> chunked_network" where
  \<open>sample_network rs =
     \<lparr>initResponse = Some (json_response ''{"sessionId":"s1","sandboxId":"b1"}''),
      uploadResponse = (\<lambda>i. Some (json_response ''{"uploaded":1}'')),
      finalizeResponse = Some (stream_response rs)\<rparr>\<close>

text \<open>
  A \<^verbatim>\<open>complete\<close> event whose data is cut off, one whose data is \<^verbatim>\<open>null\<close>, and one
  whose data line arrives in the read after its event line.
\<close>

definition complete_cut_off_stream :: "string list" where
  \<open>complete_cut_off_stream =
     [sse_text [''event: complete'', ''data: {"inflightUrl":"https:'', []]]\<close>

definition complete_null_stream :: "string list" where
  \<open>complete_null_stream =
     [sse_text [''event: complete'', ''data: null'', []]]\<close>

definition complete_split_stream :: "string list" where
  \<open>complete_split_stream =
     [sse_text [''event: complete''], sse_text [''data: {"inflightUrl":"https://x"}'', []]]\<close>

text \<open>
  A finalize stream of progress events: the lines of one event with the payload text
  \<open>t\<close>, the payload with a whole percentage and a step, and the percentages of the
  progress callbacks in a list of callbacks. An event of a stream is given by its
  payload text, its percentage and its step.
\<close>

definition progress_event :: "string \<Rightarrow> string list" where
  "progress_event t = [''event: progress'', ''data: '' @ t, []]"

definition progress_payload :: "nat \<Rightarrow> string \<Rightarrow> jsval" where
  "progress_payload k s = JObj [(''percentage'', JNum (real k)), (''step'', JStr s)]"

definition reported_percentages :: "callback list \<Rightarrow> jsval list" where
  "reported_percentages cbs =
     concat (map (\<lambda>cb. case cb of OnProgress pct step \<Rightarrow> [pct] | OnError m \<Rightarrow> []) cbs)"

definition three_progress_events :: "(string \<times> nat \<times> string) list" where
  \<open>three_progress_events =
     [(''{"percentage":0,"step":"start"}'', 0, ''start''),
      (''{"percentage":50,"step":"x"}'', 50, ''x''),
      (''{"percentage":100,"step":"done"}'', 100, ''done'')]\<close>

definition progress_stream :: "string list" where
  "progress_stream =
     [sse_text (concat (map (\<lambda>e. progress_event (fst e)) three_progress_events))]"

definition three_chunks :: "FileMap list" where
  "three_chunks = [[(''a.ts'', Text ''a'')], [(''b.ts'', Text ''b'')], [(''c.ts'', Text ''c'')]]"

section \<open>Dependency analyzer (analyzers/dependency-analyzer)\<close>

subsection \<open>UI-relevant files\<close>

text \<open>
  The patterns of \<^verbatim>\<open>UI_RELEVANT_PATTERNS\<close>. In \<^verbatim>\<open>/(^|\/)app\/.*\.(js|jsx|ts|tsx)$/\<close> the
  dot matches any character but a line terminator: after some occurrence of the
  directory, the rest of the path is a run of such characters followed by one of the
  extensions.
\<close>

definition is_line_terminator :: "char \<Rightarrow> bool" where
  "is_line_terminator c = (c = CHR 0x0A \<or> c = CHR 0x0D)"

definition ends_with_ext :: "string list \<Rightarrow> string \<Rightarrow> bool" where
  "ends_with_ext exts r =
     list_ex (\<lambda>ext. endsWith r ext
                \<and> \<not> list_ex is_line_terminator (take (length r - length ext) r)) exts"

fun rests_after :: "string \<Rightarrow> string \<Rightarrow> string list" where
  "rests_after pat [] = []"
| "rests_after pat (c # cs) =
     (if startsWith (c # cs) pat then [drop (length pat) (c # cs)] else []) @ rests_after pat cs"

definition dir_file_pattern :: "string \<Rightarrow> string list \<Rightarrow> string \<Rightarrow> bool" where
  "dir_file_pattern name exts p =
     list_ex (ends_with_ext exts)
       ((if startsWith p (name @ ''/'') then [drop (length name + 1) p] else [])
        @ rests_after (''/'' @ name @ ''/'') p)"

definition UI_RELEVANT_PATTERNS :: "(string \<Rightarrow> bool) list" where
  "UI_RELEVANT_PATTERNS =
     [\<lambda>p. endsWith p ''.tsx'' \<or> endsWith p ''.jsx'',
      dir_pattern ''components'',
      dir_file_pattern ''app'' [''.js'', ''.jsx'', ''.ts'', ''.tsx''],
      dir_file_pattern ''pages'' [''.js'', ''.jsx'', ''.ts'', ''.tsx''],
      \<lambda>p. endsWith p ''.css'' \<or> endsWith p ''.scss'' \<or> endsWith p ''.sass''
           \<or> endsWith p ''.module.css'']"

definition isUIRelevant :: "string \<Rightarrow> bool" where
  "isUIRelevant filePath = list_ex (\<lambda>pattern. pattern filePath) UI_RELEVANT_PATTERNS"

subsection \<open>Changed files\<close>

datatype ChangeType = Added | Modified | Deleted

text \<open>
  \<^verbatim>\<open>ChangedFile = {path, changeType, isUIRelevant}\<close>; the fields carry the prefix
  \<open>cf_\<close>, since \<open>isUIRelevant\<close> is also the function.
\<close>

record ChangedFile =
  cf_path :: string
  cf_changeType :: ChangeType
  cf_isUIRelevant :: bool

text \<open>
  \<^verbatim>\<open>line.match(/^diff --git a\/(.+?) b\/(.+?)$/)\<close>, second group. The first group is
  lazy: it ends at the first \<^verbatim>\<open> b/\<close> after at least one character for which the rest
  of the line is not empty; no group holds a line terminator.
\<close>

fun diff_header_rest :: "string \<Rightarrow> string option" where
  "diff_header_rest [] = None"
| "diff_header_rest (c # cs) =
     (if startsWith (c # cs) '' b/'' \<and> drop 3 (c # cs) \<noteq> []
         \<and> \<not> list_ex is_line_terminator (drop 3 (c # cs))
      then Some (drop 3 (c # cs))
      else if is_line_terminator c then None
      else diff_header_rest cs)"

definition diff_header_path :: "string \<Rightarrow> string option" where
  "diff_header_path line =
     (if startsWith line ''diff --git a/'' then
        (case drop 13 line of
           [] \<Rightarrow> None
         | c # cs \<Rightarrow> if is_line_terminator c then None else diff_header_rest cs)
      else None)"

definition parseChangedFilesFromDiff :: "string \<Rightarrow> ChangedFile list" where
  "parseChangedFilesFromDiff diff' =
     concat (map (\<lambda>line. case diff_header_path line of
                            None \<Rightarrow> []
                          | Some filePath \<Rightarrow>
                              [\<lparr>cf_path = filePath, cf_changeType = Modified,
                                cf_isUIRelevant = isUIRelevant filePath\<rparr>])
                 (split_on (CHR 0x0A) diff'))"

subsection \<open>The resolution pass\<close>

text \<open>
  What the analyzer takes from Node: \<^verbatim>\<open>fs.existsSync\<close>, and \<^verbatim>\<open>path.resolve\<close>,
  \<^verbatim>\<open>path.relative\<close>, \<^verbatim>\<open>path.join\<close>, \<^verbatim>\<open>path.dirname\<close>; \<open>alias_filter alias p\<close> is
  the test of the \<^verbatim>\<open>RegExp\<close> built from an alias on an import path.
\<close>

record node_env =
  fs_exists :: "string \<Rightarrow> bool"
  path_resolve :: "string \<Rightarrow> string \<Rightarrow> string"
  path_relative :: "string \<Rightarrow> string \<Rightarrow> string"
  path_join :: "string list \<Rightarrow> string"
  path_dirname :: "string \<Rightarrow> string"
  alias_filter :: "string \<Rightarrow> string \<Rightarrow> bool"

text \<open>
  The three collections of one resolution pass: \<^verbatim>\<open>resolvedFiles\<close> (a \<^verbatim>\<open>Set\<close>),
  \<^verbatim>\<open>npmPackages\<close> (a \<^verbatim>\<open>Map\<close> from package name to a \<^verbatim>\<open>Set\<close> of specifiers) and
  \<^verbatim>\<open>workspacePackages\<close> (a \<^verbatim>\<open>Map\<close> to \<^verbatim>\<open>{resolvedPath, imports}\<close>), each in insertion
  order.
\<close>

record resolver_state =
  st_resolvedFiles :: "string list"
  st_npmPackages :: "(string \<times> string list) list"
  st_workspacePackages :: "(string \<times> (string option \<times> string list)) list"

text \<open>
  The loop over \<^verbatim>\<open>[".ts", ".tsx", ".js", ".jsx", ""]\<close> of the alias and the relative
  resolver: the project-relative path of the first candidate that exists.
\<close>

fun try_extensions :: "node_env \<Rightarrow> string \<Rightarrow> string \<Rightarrow> string list \<Rightarrow> string option" where
  "try_extensions env projectRoot fullPath [] = None"
| "try_extensions env projectRoot fullPath (ext # exts) =
     (let testPath = fullPath @ ext in
      if fs_exists env testPath then Some (path_relative env projectRoot testPath)
      else
        (let indexPath = path_join env [fullPath, ''index'' @ (if ext \<noteq> [] then ext else ''.ts'')] in
         if fs_exists env indexPath then Some (path_relative env projectRoot indexPath)
         else try_extensions env projectRoot fullPath exts))"

definition add_resolved :: "string option \<Rightarrow> resolver_state \<Rightarrow> resolver_state" where
  "add_resolved found st =
     (case found of
        None \<Rightarrow> st
      | Some relativePath \<Rightarrow> st\<lparr>st_resolvedFiles := set_add relativePath (st_resolvedFiles st)\<rparr>)"

text \<open>
  The alias resolver. \<^verbatim>\<open>args.path.replace(alias, target)\<close> replaces the first occurrence
  of the alias; a target is taken to hold no \<^verbatim>\<open>$\<close> replacement pattern.
\<close>

definition on_resolve_alias ::
  "node_env \<Rightarrow> string \<Rightarrow> string \<Rightarrow> string \<Rightarrow> string \<Rightarrow> resolver_state \<Rightarrow> resolver_state" where
  "on_resolve_alias env projectRoot alias target p st =
     (let resolvedPath = replace_first alias target p;
          fullPath = path_resolve env projectRoot resolvedPath
      in add_resolved (try_extensions env projectRoot fullPath
                         [''.ts'', ''.tsx'', ''.js'', ''.jsx'', []]) st)"

definition join_with :: "string \<Rightarrow> string list \<Rightarrow> string" where
  "join_with sep xs = (case xs of [] \<Rightarrow> [] | x # rest \<Rightarrow> x @ concat (map (\<lambda>y. sep @ y) rest))"

definition add_npm :: "string \<Rightarrow> string \<Rightarrow> resolver_state \<Rightarrow> resolver_state" where
  "add_npm packageName p st =
     (let existing = (case map_of (st_npmPackages st) packageName of Some s \<Rightarrow> s | None \<Rightarrow> []);
          subpath = drop (length packageName + 1) p
      in st\<lparr>st_npmPackages :=
              entry_set packageName (set_add (if subpath \<noteq> [] then subpath else ''default'') existing)
                (st_npmPackages st)\<rparr>)"

text \<open>
  The loop over \<^verbatim>\<open>workspacePaths\<close> of the scoped resolver; \<open>None\<close> when no candidate
  directory exists. The filter of the callback guarantees that the package name has a
  second part.
\<close>

fun scoped_workspace ::
  "node_env \<Rightarrow> string \<Rightarrow> string \<Rightarrow> string \<Rightarrow> string list \<Rightarrow> resolver_state \<Rightarrow> resolver_state option" where
  "scoped_workspace env projectRoot packageName p [] st = None"
| "scoped_workspace env projectRoot packageName p (wsPath # rest) st =
     (let parts = split_on CHR ''/'' packageName;
          pkgName = (if 1 < length parts then parts ! 1 else ''undefined'');
          pkgPath = path_join env [wsPath, pkgName]
      in if fs_exists env pkgPath then
           (let existing = (case map_of (st_workspacePackages st) packageName of
                              Some e \<Rightarrow> e
                            | None \<Rightarrow> (Some (path_relative env projectRoot pkgPath), []))
            in Some (st\<lparr>st_workspacePackages :=
                          entry_set packageName (fst existing, set_add p (snd existing))
                            (st_workspacePackages st)\<rparr>))
         else scoped_workspace env projectRoot packageName p rest st)"

definition on_resolve_scoped :: "node_env \<Rightarrow> string \<Rightarrow> string \<Rightarrow> resolver_state \<Rightarrow> resolver_state" where
  "on_resolve_scoped env projectRoot p st =
     (let packageName = join_with ''/'' (take 2 (split_on CHR ''/'' p));
          workspacePaths = [path_join env [projectRoot, ''..'', ''packages''],
                            path_join env [projectRoot, ''..'', ''..'', ''packages''],
                            path_join env [projectRoot, ''packages'']]
      in case scoped_workspace env projectRoot packageName p workspacePaths st of
           Some st' \<Rightarrow> st'
         | None \<Rightarrow> add_npm packageName p st)"

definition on_resolve_bare :: "string \<Rightarrow> resolver_state \<Rightarrow> resolver_state" where
  "on_resolve_bare p st = add_npm (hd (split_on CHR ''/'' p)) p st"

definition on_resolve_relative ::
  "node_env \<Rightarrow> string \<Rightarrow> string \<Rightarrow> string \<Rightarrow> resolver_state \<Rightarrow> resolver_state" where
  "on_resolve_relative env projectRoot p importer st =
     (let resolvedPath = path_resolve env (path_dirname env importer) p
      in add_resolved (try_extensions env projectRoot resolvedPath
                         [''.ts'', ''.tsx'', ''.js'', ''.jsx'', []]) st)"

definition on_load :: "node_env \<Rightarrow> string \<Rightarrow> string \<Rightarrow> resolver_state \<Rightarrow> resolver_state" where
  "on_load env projectRoot p st =
     st\<lparr>st_resolvedFiles := set_add (path_relative env projectRoot p) (st_resolvedFiles st)\<rparr>"

text \<open>
  The filters of the fixed callbacks: \<^verbatim>\<open>/^@[^/]+\//\<close>, \<^verbatim>\<open>/^[^.@/]/\<close>, \<^verbatim>\<open>/^\./\<close> and, for
  \<^verbatim>\<open>onLoad\<close>, \<^verbatim>\<open>/\.(ts|tsx|js|jsx)$/\<close>.
\<close>

definition scoped_filter :: "string \<Rightarrow> bool" where
  "scoped_filter p =
     (case p of
        [] \<Rightarrow> False
      | c # cs \<Rightarrow> c = CHR ''@''
          \<and> (let scope = takeWhile (\<lambda>x. x \<noteq> CHR ''/'') cs
             in scope \<noteq> [] \<and> length scope < length cs))"

definition bare_filter :: "string \<Rightarrow> bool" where
  "bare_filter p = (case p of [] \<Rightarrow> False | c # cs \<Rightarrow> c \<noteq> CHR ''.'' \<and> c \<noteq> CHR ''@'' \<and> c \<noteq> CHR ''/'')"

definition relative_filter :: "string \<Rightarrow> bool" where
  "relative_filter p = startsWith p ''.''"

definition load_filter :: "string \<Rightarrow> bool" where
  "load_filter p = (endsWith p ''.ts'' \<or> endsWith p ''.tsx'' \<or> endsWith p ''.js'' \<or> endsWith p ''.jsx'')"

text \<open>
  One request of the bundler to the plugin. A resolve request goes to the first
  registered \<^verbatim>\<open>onResolve\<close> callback whose filter matches the path: the alias callbacks
  in the order of \<^verbatim>\<open>Object.entries(pathAliases)\<close>, then the scoped, the bare and the
  relative one (each of them answers). A load request goes to \<^verbatim>\<open>onLoad\<close>.
\<close>

datatype build_event = ResolveRequest string string | LoadRequest string

fun resolve_by_alias ::
  "node_env \<Rightarrow> string \<Rightarrow> (string \<times> string) list \<Rightarrow> string \<Rightarrow> resolver_state \<Rightarrow> resolver_state option" where
  "resolve_by_alias env projectRoot [] p st = None"
| "resolve_by_alias env projectRoot ((alias, target) # rest) p st =
     (if alias_filter env alias p then Some (on_resolve_alias env projectRoot alias target p st)
      else resolve_by_alias env projectRoot rest p st)"

fun plugin_step ::
  "node_env \<Rightarrow> string \<Rightarrow> (string \<times> string) list \<Rightarrow> resolver_state \<Rightarrow> build_event \<Rightarrow> resolver_state" where
  "plugin_step env projectRoot pathAliases st (ResolveRequest p importer) =
     (case resolve_by_alias env projectRoot pathAliases p st of
        Some st' \<Rightarrow> st'
      | None \<Rightarrow>
          if scoped_filter p then on_resolve_scoped env projectRoot p st
          else if bare_filter p then on_resolve_bare p st
          else if relative_filter p then on_resolve_relative env projectRoot p importer st
          else st)"
| "plugin_step env projectRoot pathAliases st (LoadRequest p) =
     (if load_filter p then on_load env projectRoot p st else st)"

record NpmPackage =
  npm_name :: string
  specifiers :: "string list"

record WorkspacePackage =
  ws_name :: string
  resolvedPath :: "string option"
  importedFiles :: "string list"

record Dependencies =
  localFiles :: "string list"
  npmPackages :: "NpmPackage list"
  workspacePackages :: "WorkspacePackage list"

text \<open>
  \<^verbatim>\<open>analyzeDependencies\<close>. \<open>events\<close> is the sequence of requests that \<^verbatim>\<open>esbuild.build\<close>
  makes to the plugin before it returns or throws (the \<^verbatim>\<open>catch\<close> ignores the failure):
  any run of the bundler is some such sequence. \<^verbatim>\<open>Array.from(resolvedFiles).sort()\<close>
  orders strings by their code units, as \<open>sort\<close> does on \<open>string\<close>.
\<close>

definition analyzeDependencies ::
  "node_env \<Rightarrow> build_event list \<Rightarrow> string \<Rightarrow> string list \<Rightarrow> (string \<times> string) list \<Rightarrow> Dependencies" where
  "analyzeDependencies env events projectRoot entryPoints' pathAliases' =
     (let st0 = \<lparr>st_resolvedFiles = foldl (\<lambda>s entry. set_add entry s) [] entryPoints',
                 st_npmPackages = [], st_workspacePackages = []\<rparr>;
          st = foldl (plugin_step env projectRoot pathAliases') st0 events
      in \<lparr>localFiles = sort (st_resolvedFiles st),
          npmPackages = map (\<lambda>(name, specs). \<lparr>npm_name = name, specifiers = specs\<rparr>)
                          (st_npmPackages st),
          workspacePackages =
            map (\<lambda>(name, d). \<lparr>ws_name = name, resolvedPath = fst d, importedFiles = snd d\<rparr>)
              (st_workspacePackages st)\<rparr>)"

text \<open>A step of the pass keeps the set of resolved files duplicate-free and only adds to it.\<close>

definition files_kept :: "resolver_state \<Rightarrow> resolver_state \<Rightarrow> bool" where
  "files_kept st st' =
     ((distinct (st_resolvedFiles st) \<longrightarrow> distinct (st_resolvedFiles st'))
      \<and> set (st_resolvedFiles st) \<subseteq> set (st_resolvedFiles st'))"

subsection \<open>analyzeProjectDependencies\<close>

record Metadata =
  projectRoot :: string
  entryPoints :: "string list"
  analysisTimeMs :: int
  pathAliases :: "(string \<times> string) list"

record DependencyAnalysisResult =
  changedFiles :: "ChangedFile list"
  dependencies :: Dependencies
  metadata :: Metadata

text \<open>
  The surroundings of one call: the project root as \<^verbatim>\<open>path.resolve(projectPath)\<close>
  gives it, git in that directory, the aliases \<^verbatim>\<open>loadPathAliases\<close> reads from the
  project's configuration, and the two readings of \<^verbatim>\<open>Date.now()\<close>.
\<close>

record project_env =
  root_dir :: string
  git :: git_runner
  loaded_aliases :: "(string \<times> string) list"
  now_start :: int
  now_end :: int

text \<open>
  The changed files: the given list when it is present and not empty, else the headers
  of the git diff against the base branch, else none.
\<close>

definition changed_file_records :: "project_env \<Rightarrow> string list option \<Rightarrow> string option \<Rightarrow> ChangedFile list" where
  "changed_file_records penv changedFiles' baseBranch' =
     (case changedFiles' of
        Some (f # fs) \<Rightarrow>
          map (\<lambda>f. \<lparr>cf_path = f, cf_changeType = Modified, cf_isUIRelevant = isUIRelevant f\<rparr>) (f # fs)
      | _ \<Rightarrow>
          if isGitRepo (git penv) then
            (case getGitDiff (git penv) 500000 baseBranch' of
               Some diffResult \<Rightarrow> parseChangedFilesFromDiff (diff diffResult)
             | None \<Rightarrow> [])
          else [])"

definition analyzeProjectDependencies ::
  "project_env \<Rightarrow> node_env \<Rightarrow> build_event list \<Rightarrow> string list option \<Rightarrow> string option
   \<Rightarrow> DependencyAnalysisResult" where
  "analyzeProjectDependencies penv env events changedFiles' baseBranch' =
     (let files = changed_file_records penv changedFiles' baseBranch';
          entryPoints' = map cf_path
                           (filter (\<lambda>f. cf_isUIRelevant f \<and> cf_changeType f \<noteq> Deleted) files)
      in if length entryPoints' = 0 then
           \<lparr>changedFiles = files,
            dependencies = \<lparr>localFiles = [], npmPackages = [], workspacePackages = []\<rparr>,
            metadata = \<lparr>projectRoot = root_dir penv, entryPoints = [],
                        analysisTimeMs = now_end penv - now_start penv,
                        pathAliases = loaded_aliases penv\<rparr>\<rparr>
         else
           \<lparr>changedFiles = files,
            dependencies = analyzeDependencies env events (root_dir penv) entryPoints'
                             (loaded_aliases penv),
            metadata = \<lparr>projectRoot = root_dir penv, entryPoints = entryPoints',
                        analysisTimeMs = now_end penv - now_start penv,
                        pathAliases = loaded_aliases penv\<rparr>\<rparr>)"

subsection \<open>Sample project\<close>

text \<open>
  A file system in which only \<^verbatim>\<open>/p/src/Button.tsx\<close> exists, with path functions that
  suffice for paths below \<^verbatim>\<open>/p\<close>, and a project whose git diff is that of
  \<open>repo_changed\<close>.
\<close>

definition sample_node_env :: node_env where
  "sample_node_env =
     \<lparr>fs_exists = (\<lambda>p. p = ''/p/src/Button.tsx''),
      path_resolve = (\<lambda>a b. if startsWith b ''./'' then a @ ''/'' @ drop 2 b else a @ ''/'' @ b),
      path_relative = (\<lambda>a b. if startsWith b (a @ ''/'') then drop (length a + 1) b else b),
      path_join = join_with ''/'',
      path_dirname = (\<lambda>p. rev (drop 1 (dropWhile (\<lambda>c. c \<noteq> CHR ''/'') (rev p)))),
      alias_filter = (\<lambda>alias p. startsWith p alias)\<rparr>"

definition sample_project :: project_env where
  "sample_project =
     \<lparr>root_dir = ''/p'', git = repo_changed, loaded_aliases = [(''@/'', ''./src/'')],
      now_start = 1000, now_end = 1042\<rparr>"

definition sample_events :: "build_event list" where
  "sample_events =
     [LoadRequest ''/p/src/App.tsx'',
      ResolveRequest ''react'' ''/p/src/App.tsx'',
      ResolveRequest ''./Button'' ''/p/src/App.tsx'',
      LoadRequest ''/p/src/Button.tsx'',
      ResolveRequest ''@/Button'' ''/p/src/Button.tsx'',
      ResolveRequest ''@radix-ui/react-slot'' ''/p/src/Button.tsx'']"

text \<open>
  A project on a branch that deletes the component \<^verbatim>\<open>src/App.tsx\<close>: the output of
  \<^verbatim>\<open>git diff\<close> for the deletion, and git in that project.
\<close>

definition deleted_file_diff :: string where
  "deleted_file_diff =
     join_with [CHR 0x0A]
       [''diff --git a/src/App.tsx b/src/App.tsx'',
        ''deleted file mode 100644'',
        ''index 5f2c6d1..0000000'',
        ''--- a/src/App.tsx'',
        ''+++ /dev/null'',
        ''@@ -1 +0,0 @@'',
        ''-export default function App() { return null }'']"

definition repo_deleted_file :: git_runner where
  "repo_deleted_file command =
     (if command = ''git rev-parse --is-inside-work-tree'' then Some (''true'' @ [CHR 0x0A])
      else if command = ''git rev-parse --verify main'' then Some (''0a1b2c3d4e'' @ [CHR 0x0A])
      else if command = ''git rev-parse --abbrev-ref HEAD'' then Some (''feature'' @ [CHR 0x0A])
      else if command = ''git merge-base main HEAD'' then Some (''0a1b2c3d4e'' @ [CHR 0x0A])
      else if command = ''git diff --stat 0a1b2c3d4e...HEAD''
        then Some '' 1 file changed, 1 deletion(-)''
      else if command = ''git diff 0a1b2c3d4e...HEAD'' then Some deleted_file_diff
      else None)"

definition deleted_file_project :: project_env where
  "deleted_file_project =
     \<lparr>root_dir = ''/p'', git = repo_deleted_file, loaded_aliases = [],
      now_start = 1000, now_end = 1042\<rparr>"

section \<open>Chunking: lemmas\<close>

lemma calculateTotalSize_sum:
  "calculateTotalSize files = sum_list (map (\<lambda>e. getFileSize (snd e)) files)"
proof -
  have "foldl (\<lambda>sum file. sum + getFileSize file) a (map snd fs)
        = a + sum_list (map (\<lambda>e. getFileSize (snd e)) fs)" for a and fs :: FileMap
    by (induction fs arbitrary: a) simp_all
  then show ?thesis by (simp add: calculateTotalSize_def)
qed

lemma entry_set_fresh: "k \<notin> fst ` set m \<Longrightarrow> entry_set k v m = m @ [(k, v)]"
  by (induction m) auto

lemma obj_set_fresh:
  "k \<noteq> ''__proto__'' \<Longrightarrow> k \<notin> fst ` set m \<Longrightarrow> obj_set k v m = m @ [(k, v)]"
  by (simp add: obj_set_def entry_set_fresh)

lemma total_snoc: "calculateTotalSize (c @ [(p, f)]) = calculateTotalSize c + getFileSize f"
  by (simp add: calculateTotalSize_sum)

lemma total_single: "calculateTotalSize [(p, f)] = getFileSize f"
  by (simp add: calculateTotalSize_sum)

lemma total_Nil: "calculateTotalSize [] = 0"
  by (simp add: calculateTotalSize_sum)

lemma greedy_cuts_snoc:
  "cs \<noteq> [] \<Longrightarrow> greedy_cuts M (cs @ [c]) =
     (greedy_cuts M cs \<and> int (calculateTotalSize (last cs)) + int (getFileSize (snd (hd c))) > M)"
proof (induction M cs rule: greedy_cuts.induct)
  case (1 M)
  then show ?case by simp
next
  case (2 M c)
  then show ?case by simp
next
  case (3 M c d cs)
  then show ?case by auto
qed

lemma greedy_cuts_grow_last:
  "c \<noteq> [] \<Longrightarrow> greedy_cuts M (cs @ [c]) \<Longrightarrow> greedy_cuts M (cs @ [c @ e])"
  by (cases "cs = []") (simp_all add: greedy_cuts_snoc)

lemma chunk_step_inv:
  assumes "chunk_inv M seen st" and "fst e \<notin> fst ` set seen" and "fst e \<noteq> ''__proto__''"
  shows "chunk_inv M (seen @ [e]) (chunk_step M st e)"
proof -
  obtain chunks cur sz where st: "st = (chunks, cur, sz)" by (cases st)
  obtain p f where e: "e = (p, f)" by (cases e)
  from assms st have cat: "concat chunks @ cur = seen" and sz: "sz = calculateTotalSize cur"
    and bound: "cur \<noteq> [] \<longrightarrow> int sz \<le> M" and ok: "\<forall>c\<in>set chunks. chunk_ok M c"
    and cuts: "greedy_cuts M (chunks @ (if cur = [] then [] else [cur]))"
    and big: "cur = [] \<and> chunks \<noteq> [] \<longrightarrow> int (calculateTotalSize (last chunks)) > M"
    by (auto simp: chunk_inv_def)
  from assms(2) cat e have fresh: "p \<notin> fst ` set cur" by auto
  from assms(3) e have stored: "p \<noteq> ''__proto__''" by simp
  have first: "obj_set p f [] = [(p, f)]"
    using obj_set_fresh[OF stored, of "[]" f] by simp
  have snoc: "obj_set p f cur = cur @ [(p, f)]"
    by (rule obj_set_fresh[OF stored fresh])
  have z: "cur = [] \<Longrightarrow> sz = 0" using sz by (simp add: total_Nil)
  consider (A) "int (getFileSize f) > M" "cur \<noteq> []"
    | (B) "int (getFileSize f) > M" "cur = []"
    | (C) "\<not> int (getFileSize f) > M" "int (sz + getFileSize f) > M" "cur \<noteq> []"
    | (D) "\<not> int (getFileSize f) > M" "\<not> (int (sz + getFileSize f) > M \<and> cur \<noteq> [])"
    by blast
  then show ?thesis
  proof cases
    case A
    have g: "greedy_cuts M ((chunks @ [cur]) @ [[(p, f)]])"
      using cuts A by (subst greedy_cuts_snoc) auto
    from A cat sz bound ok g show ?thesis
      by (auto simp: st e chunk_inv_def chunk_ok_def total_single total_Nil)
  next
    case B
    have g: "greedy_cuts M (chunks @ [[(p, f)]])"
      using cuts B big by (cases "chunks = []") (auto simp: greedy_cuts_snoc)
    from B cat sz ok g z show ?thesis
      by (auto simp: st e chunk_inv_def chunk_ok_def total_single total_Nil)
  next
    case C
    have g: "greedy_cuts M ((chunks @ [cur]) @ [[(p, f)]])"
      using cuts C sz by (subst greedy_cuts_snoc) auto
    from C cat sz bound ok g show ?thesis
      by (auto simp: st e chunk_inv_def chunk_ok_def first total_single total_Nil)
  next
    case D
    have g: "greedy_cuts M (chunks @ [cur @ [(p, f)]])"
    proof (cases "cur = []")
      case True
      then show ?thesis using cuts big D
        by (cases "chunks = []") (auto simp: greedy_cuts_snoc)
    next
      case False
      then show ?thesis using cuts greedy_cuts_grow_last by auto
    qed
    from D cat sz bound ok g z show ?thesis
      by (auto simp: st e chunk_inv_def chunk_ok_def snoc first total_snoc total_single total_Nil)
  qed
qed

lemma chunk_loop_inv:
  "chunk_inv M seen st \<Longrightarrow> distinct (map fst (seen @ es)) \<Longrightarrow>
   ''__proto__'' \<notin> fst ` set es \<Longrightarrow>
   chunk_inv M (seen @ es) (chunk_loop M st es)"
proof (induction es arbitrary: seen st)
  case Nil
  then show ?case by simp
next
  case (Cons e es)
  from Cons.prems(2) have fresh: "fst e \<notin> fst ` set seen" by auto
  from Cons.prems(3) have stored: "fst e \<noteq> ''__proto__''" by auto
  from Cons.prems(3) have rest: "''__proto__'' \<notin> fst ` set es" by auto
  have "chunk_inv M ((seen @ [e]) @ es) (chunk_loop M (chunk_step M st e) es)"
    using Cons.prems(1,2) rest by (intro Cons.IH chunk_step_inv[OF _ fresh stored]) auto
  then show ?case by simp
qed


lemma chunk_inv_init: "chunk_inv M [] ([], [], 0)"
  by (simp add: chunk_inv_def total_Nil)

lemma distinct_keys_sorted_entries:
  "distinct (map fst files) \<Longrightarrow> distinct (map fst (sorted_entries files))"
proof -
  have "mset (map fst (sorted_entries files)) = mset (map fst files)"
    by (simp add: sorted_entries_def)
  then show "distinct (map fst files) \<Longrightarrow> distinct (map fst (sorted_entries files))"
    using mset_eq_imp_distinct_iff by blast
qed

lemma greedy_cuts_nth:
  "greedy_cuts M cs \<Longrightarrow> Suc i < length cs \<Longrightarrow>
   M < int (calculateTotalSize (cs ! i)) + int (getFileSize (snd (hd (cs ! Suc i))))"
proof (induction M cs arbitrary: i rule: greedy_cuts.induct)
  case (3 M c d cs)
  then show ?case by (cases i) auto
qed simp_all

lemma distinct_concat_unique_index:
  "distinct (map fst (concat cs)) \<Longrightarrow> i < length cs \<Longrightarrow> j < length cs \<Longrightarrow>
   k \<in> fst ` set (cs ! i) \<Longrightarrow> k \<in> fst ` set (cs ! j) \<Longrightarrow> i = j"
proof (induction cs arbitrary: i j)
  case Nil
  then show ?case by simp
next
  case (Cons c cs)
  have tl: "distinct (map fst (concat cs))" using Cons.prems(1) by simp
  have disj: "fst ` set c \<inter> fst ` set (cs ! n) = {}" if "n < length cs" for n
  proof -
    have "cs ! n \<in> set cs" using that by simp
    then have "set (cs ! n) \<subseteq> set (concat cs)" by auto
    then have "fst ` set (cs ! n) \<subseteq> set (map fst (concat cs))" by auto
    moreover have "set (map fst c) \<inter> set (map fst (concat cs)) = {}"
      using Cons.prems(1) by simp
    ultimately show ?thesis by auto
  qed
  show ?case
  proof (cases i)
    case 0
    note i0 = 0
    show ?thesis
    proof (cases j)
      case 0
      with i0 show ?thesis by simp
    next
      case (Suc j')
      with i0 Cons.prems disj[of j'] show ?thesis by auto
    qed
  next
    case (Suc i')
    note iS = Suc
    show ?thesis
    proof (cases j)
      case 0
      with iS Cons.prems disj[of i'] show ?thesis by auto
    next
      case (Suc j')
      with iS Cons.prems Cons.IH[OF tl, of i' j'] show ?thesis by auto
    qed
  qed
qed

lemma chunkFiles_inv:
  assumes "distinct (map fst files)" and "''__proto__'' \<notin> fst ` set files"
  shows "concat (chunkFiles files M) = sorted_entries files"
    and "\<forall>c\<in>set (chunkFiles files M). chunk_ok M c"
    and "greedy_cuts M (chunkFiles files M)"
proof -
  obtain chunks cur sz where r: "chunk_loop M ([], [], 0) (sorted_entries files) = (chunks, cur, sz)"
    by (cases "chunk_loop M ([], [], 0) (sorted_entries files)")
  have keys: "''__proto__'' \<notin> fst ` set (sorted_entries files)"
    using assms(2) by (simp add: sorted_entries_def)
  have "chunk_inv M ([] @ sorted_entries files) (chunk_loop M ([], [], 0) (sorted_entries files))"
    using assms(1) keys
    by (intro chunk_loop_inv chunk_inv_init) (simp_all add: distinct_keys_sorted_entries)
  then have inv: "chunk_inv M (sorted_entries files) (chunks, cur, sz)" by (simp add: r)
  have cf: "chunkFiles files M = chunks @ (if cur = [] then [] else [cur])"
    by (simp add: chunkFiles_def r)
  show "concat (chunkFiles files M) = sorted_entries files"
    using inv by (auto simp: cf chunk_inv_def)
  show "\<forall>c\<in>set (chunkFiles files M). chunk_ok M c"
    using inv by (auto simp: cf chunk_inv_def chunk_ok_def)
  show "greedy_cuts M (chunkFiles files M)"
    using inv by (auto simp: cf chunk_inv_def)
qed

text \<open>
  For a file map (pairwise different keys) that has no key \<^verbatim>\<open>__proto__\<close> and a maximum
  chunk size \<open>M\<close>, \<open>chunkFiles\<close> partitions the input: the chunks, concatenated, are the
  entries sorted ascending by size (the greedy pass runs over that order), every entry
  of the input lies in exactly one chunk and no chunk holds another entry for its key,
  no chunk is empty, and the aggregate size of a chunk is at most \<open>M\<close> unless the chunk
  is one single file larger than \<open>M\<close>. The pass is greedy: a chunk is closed only when
  the next file does not fit into it.
\<close>

lemma chunkFiles_partition:
  assumes "distinct (map fst files)" and "''__proto__'' \<notin> fst ` set files"
  shows "concat (chunkFiles files M) = sorted_entries files
    \<and> mset (concat (chunkFiles files M)) = mset files
    \<and> distinct (map fst (concat (chunkFiles files M)))
    \<and> (\<forall>k v. (k, v) \<in> set files \<longrightarrow>
          (\<exists>!i. i < length (chunkFiles files M) \<and> (k, v) \<in> set (chunkFiles files M ! i))
        \<and> (\<forall>i < length (chunkFiles files M). \<forall>v'. (k, v') \<in> set (chunkFiles files M ! i) \<longrightarrow> v' = v))
    \<and> (\<forall>c \<in> set (chunkFiles files M). c \<noteq> [] \<and>
          (int (calculateTotalSize c) \<le> M \<or> (\<exists>p f. c = [(p, f)] \<and> M < int (getFileSize f))))
    \<and> (\<forall>i. Suc i < length (chunkFiles files M) \<longrightarrow>
          M < int (calculateTotalSize (chunkFiles files M ! i))
              + int (getFileSize (snd (hd (chunkFiles files M ! Suc i)))))"
proof -
  let ?cs = "chunkFiles files M"
  have cat: "concat ?cs = sorted_entries files"
    by (rule chunkFiles_inv(1)[OF assms])
  have ms: "mset (concat ?cs) = mset files"
    by (simp add: cat sorted_entries_def)
  have dk: "distinct (map fst (concat ?cs))"
    by (simp add: cat distinct_keys_sorted_entries assms(1))
  have setcat: "set (concat ?cs) = set files"
    using ms by (metis set_mset_mset)
  have once: "(\<exists>!i. i < length ?cs \<and> (k, v) \<in> set (?cs ! i))
      \<and> (\<forall>i < length ?cs. \<forall>v'. (k, v') \<in> set (?cs ! i) \<longrightarrow> v' = v)"
    if kv: "(k, v) \<in> set files" for k v
  proof -
    from kv setcat have "(k, v) \<in> set (concat ?cs)" by simp
    then obtain c where "c \<in> set ?cs" "(k, v) \<in> set c" by auto
    then obtain i where i: "i < length ?cs" "(k, v) \<in> set (?cs ! i)"
      by (auto simp: in_set_conv_nth)
    have uniq: "j = i" if "j < length ?cs" "(k, v') \<in> set (?cs ! j)" for j v'
      using distinct_concat_unique_index[OF dk that(1) i(1), of k] that(2) i(2)
      by force
    have same: "v' = v" if "j < length ?cs" "(k, v') \<in> set (?cs ! j)" for j v'
    proof -
      have "(k, v') \<in> set files" using that setcat by (metis nth_mem set_concat UN_I)
      with kv assms(1) show ?thesis by (meson eq_key_imp_eq_value)
    qed
    from i uniq same show ?thesis by blast
  qed
  have ok: "\<forall>c \<in> set ?cs. c \<noteq> [] \<and>
          (int (calculateTotalSize c) \<le> M \<or> (\<exists>p f. c = [(p, f)] \<and> M < int (getFileSize f)))"
    using chunkFiles_inv(2)[OF assms, of M] by (simp add: chunk_ok_def)
  have cuts: "\<forall>i. Suc i < length ?cs \<longrightarrow>
          M < int (calculateTotalSize (?cs ! i)) + int (getFileSize (snd (hd (?cs ! Suc i))))"
    using greedy_cuts_nth[OF chunkFiles_inv(3)[OF assms]] by blast
  from cat ms dk once ok cuts show ?thesis by blast
qed


lemma chunkFiles_example:
  "chunkFiles [(''a'', Text ''xxxxx''), (''b'', Encoded \<lparr>content = ''yy'', encoding = Base64\<rparr>),
               (''c'', Text ''zzzzzzzzzz'')] 6
     = [[(''b'', Encoded \<lparr>content = ''yy'', encoding = Base64\<rparr>)], [(''a'', Text ''xxxxx'')],
        [(''c'', Text ''zzzzzzzzzz'')]]"
  by (simp add: chunkFiles_def sorted_entries_def getFileSize_def obj_set_def)

text \<open>
  Claim C1 fails on the code for a file map with the key \<^verbatim>\<open>__proto__\<close>. With the
  maximum chunk size 10, the file map \<^verbatim>\<open>{"__proto__": "abc", "a": "x"}\<close> gives the single
  chunk \<^verbatim>\<open>{"a": "x"}\<close>: the file \<^verbatim>\<open>__proto__\<close> is in no chunk. A file map with that
  file alone gives no chunk at all. The branch for a file larger than the maximum,
  which builds its chunk by an object literal, does keep such a file.
\<close>

theorem chunkFiles_omits_proto_key:
  "distinct (map fst [(''__proto__'', Text ''abc''), (''a'', Text ''x'')])
   \<and> chunkFiles [(''__proto__'', Text ''abc''), (''a'', Text ''x'')] 10 = [[(''a'', Text ''x'')]]
   \<and> (''__proto__'', Text ''abc'')
        \<notin> set (concat (chunkFiles [(''__proto__'', Text ''abc''), (''a'', Text ''x'')] 10))
   \<and> chunkFiles [(''__proto__'', Text ''abc'')] 10 = []
   \<and> chunkFiles [(''__proto__'', Text ''abcdefghijk''), (''a'', Text ''x'')] 10
        = [[(''a'', Text ''x'')], [(''__proto__'', Text ''abcdefghijk'')]]"
  by (simp add: chunkFiles_def sorted_entries_def getFileSize_def obj_set_def)

section \<open>File classifier: lemmas\<close>

lemma sniff_loop_eq:
  "sniff_loop bs n = (if 0 \<in> set bs then None else Some (n + length (nonPrintableBytes bs)))"
  by (induction bs arbitrary: n) (auto simp: nonPrintableBytes_def)

lemma tenth_ratio:
  "n \<le> s \<Longrightarrow> (real n / real s > 1 / 10) = (real n > real s / 10)"
proof (cases "s = 0")
  case True
  assume "n \<le> s"
  with True show ?thesis by simp
next
  case False
  then have "0 < real s" by simp
  then show ?thesis by (simp add: field_simps)
qed

lemma containsBinaryContent_iff:
  "containsBinaryContent buffer =
     (0 \<in> set (take 8192 buffer)
      \<or> real (length (nonPrintableBytes (take 8192 buffer))) > real (length (take 8192 buffer)) / 10)"
proof -
  define sample where "sample = take 8192 buffer"
  have m: "take (length sample) buffer = sample"
    by (simp add: sample_def min_def)
  have l: "min (length buffer) 8192 = length sample"
    by (simp add: sample_def)
  have le: "length (nonPrintableBytes sample) \<le> length sample"
    unfolding nonPrintableBytes_def by (rule length_filter_le)
  have "containsBinaryContent buffer =
      (case sniff_loop sample 0 of None \<Rightarrow> True
       | Some nonPrintable \<Rightarrow> real nonPrintable / real (length sample) > 1 / 10)"
    by (simp only: containsBinaryContent_def Let_def l m)
  also have "\<dots> = (0 \<in> set sample
      \<or> real (length (nonPrintableBytes sample)) > real (length sample) / 10)"
    using tenth_ratio[OF le] by (simp add: sniff_loop_eq)
  finally show ?thesis by (simp add: sample_def)
qed

lemma isBinaryFile_ascii_bin: "isBinaryFile ''ascii.bin''"
  by (simp add: isBinaryFile_def extname_def basename_def toLowerCase_def BINARY_EXTENSIONS_def)

lemma isBinaryFile_blob_xyz: "\<not> isBinaryFile ''blob.xyz''"
  by (simp add: isBinaryFile_def extname_def basename_def toLowerCase_def BINARY_EXTENSIONS_def)

text \<open>
  Claim C6. Binary classification has two layers. A file name whose extension
  (\<^verbatim>\<open>path.extname\<close>, lower-cased) is on the list \<open>BINARY_EXTENSIONS\<close> is binary whatever
  its content. For any other name the content decides, on at most the first 8192
  bytes: binary exactly when a sampled byte is null or the bytes below 32 other than
  9, 10 and 13 are more than 10% of the sample. So any buffer named \<^verbatim>\<open>ascii.bin\<close> is
  binary by extension, and a 200-byte buffer with a null byte is binary under the
  unrecognised extension \<^verbatim>\<open>.xyz\<close>.
\<close>

theorem binary_classification:
  "(isBinaryFile fileName \<longrightarrow> treatAsBinary fileName buffer)
   \<and> (\<not> isBinaryFile fileName \<longrightarrow>
        treatAsBinary fileName buffer =
          (0 \<in> set (take 8192 buffer)
           \<or> real (length (nonPrintableBytes (take 8192 buffer)))
               > real (length (take 8192 buffer)) / 10))
   \<and> isBinaryFile fileName = (toLowerCase (extname fileName) \<in> set BINARY_EXTENSIONS)
   \<and> extname ''ascii.bin'' = ''.bin'' \<and> ''.bin'' \<in> set BINARY_EXTENSIONS
   \<and> treatAsBinary ''ascii.bin'' buffer
   \<and> \<not> isBinaryFile ''blob.xyz''
   \<and> (length buffer = 200 \<and> 0 \<in> set buffer \<longrightarrow> treatAsBinary ''blob.xyz'' buffer)"
proof -
  have a: "isBinaryFile fileName \<longrightarrow> treatAsBinary fileName buffer"
    by (simp add: treatAsBinary_def)
  have b: "\<not> isBinaryFile fileName \<longrightarrow>
        treatAsBinary fileName buffer =
          (0 \<in> set (take 8192 buffer)
           \<or> real (length (nonPrintableBytes (take 8192 buffer)))
               > real (length (take 8192 buffer)) / 10)"
    by (simp add: treatAsBinary_def containsBinaryContent_iff)
  have c: "isBinaryFile fileName = (toLowerCase (extname fileName) \<in> set BINARY_EXTENSIONS)"
    by (simp add: isBinaryFile_def)
  have d: "extname ''ascii.bin'' = ''.bin''"
    by (simp add: extname_def basename_def)
  have e: "''.bin'' \<in> set BINARY_EXTENSIONS"
    by (simp add: BINARY_EXTENSIONS_def)
  have f: "treatAsBinary ''ascii.bin'' buffer"
    by (simp add: treatAsBinary_def isBinaryFile_ascii_bin)
  have g: "length buffer = 200 \<and> 0 \<in> set buffer \<longrightarrow> treatAsBinary ''blob.xyz'' buffer"
    by (simp add: treatAsBinary_def isBinaryFile_blob_xyz containsBinaryContent_iff)
  from a b c d e f g isBinaryFile_blob_xyz show ?thesis by blast
qed

theorem binary_classification_witness:
  "isBinaryFile ''ascii.bin'' \<and> treatAsBinary ''ascii.bin'' (replicate 200 65)
   \<and> \<not> isBinaryFile ''blob.xyz''
   \<and> length (replicate 120 (200::byte) @ [0] @ replicate 79 7) = 200
   \<and> 0 \<in> set (replicate 120 (200::byte) @ [0] @ replicate 79 7)
   \<and> treatAsBinary ''blob.xyz'' (replicate 120 200 @ [0] @ replicate 79 7)
   \<and> \<not> treatAsBinary ''blob.xyz'' (replicate 200 65)"
proof -
  have np: "nonPrintableBytes (replicate 200 65) = []"
    by (simp add: nonPrintableBytes_def)
  have z: "(0::byte) \<notin> set (take 8192 (replicate 200 65))" by simp
  have len: "length (replicate 120 (200::byte) @ [0] @ replicate 79 7) = 200" by simp
  have nul: "0 \<in> set (replicate 120 (200::byte) @ [0] @ replicate 79 7)" by simp
  note ascii = binary_classification[of "''ascii.bin''" "replicate 200 65"]
  note plain = binary_classification[of "''blob.xyz''" "replicate 200 65"]
  note blob = binary_classification[of "''blob.xyz''" "replicate 120 200 @ [0] @ replicate 79 7"]
  have 1: "isBinaryFile ''ascii.bin''"
    using ascii by (simp add: toLowerCase_def)
  have 2: "treatAsBinary ''ascii.bin'' (replicate 200 65)"
    using ascii by blast
  have 3: "\<not> isBinaryFile ''blob.xyz''"
    using blob by blast
  have 4: "treatAsBinary ''blob.xyz'' (replicate 120 200 @ [0] @ replicate 79 7)"
    using blob len nul by blast
  have "treatAsBinary ''blob.xyz'' (replicate 200 65) =
          (0 \<in> set (take 8192 (replicate 200 (65::byte)))
           \<or> real (length (nonPrintableBytes (take 8192 (replicate 200 (65::byte)))))
               > real (length (take 8192 (replicate 200 (65::byte)))) / 10)"
    using plain by blast
  then have 5: "\<not> treatAsBinary ''blob.xyz'' (replicate 200 65)"
    using np z by simp
  from 1 2 3 len nul 4 5 show ?thesis by blast
qed

section \<open>Payload assembler: lemmas\<close>

lemma keys_entry_set: "fst ` set (entry_set k v m) = insert k (fst ` set m)"
  by (induction k v m rule: entry_set.induct) auto

lemma keys_obj_set:
  "fst ` set (obj_set k v m) = (if k = ''__proto__'' then fst ` set m else insert k (fst ` set m))"
  by (simp add: obj_set_def keys_entry_set)

lemma keys_ok_obj_set: "keys_ok files \<Longrightarrow> \<not> shouldExclude k \<Longrightarrow> keys_ok (obj_set k v files)"
  by (simp add: keys_ok_def keys_obj_set)

lemma walk_keys:
  "keys_ok files \<Longrightarrow> \<not> shouldExclude relativePath \<Longrightarrow>
     keys_ok (walk_node utf8 relativePath entry node files)"
  "keys_ok files \<Longrightarrow> keys_ok (walkDir utf8 dir entries files)"
proof (induction utf8 relativePath entry node files and utf8 dir entries files
       rule: walk_node_walkDir.induct)
  case (1 utf8 relativePath entry buffer files)
  then show ?case by (simp add: keys_ok_obj_set)
next
  case (2 utf8 relativePath entry files)
  then show ?case by simp
next
  case (3 utf8 relativePath entry entries files)
  then show ?case by simp
next
  case (4 utf8 relativePath entry files)
  then show ?case by simp
next
  case (5 utf8 relativePath entry files)
  then show ?case by simp
next
  case (6 utf8 relativePath entry files)
  then show ?case by simp
next
  case (7 utf8 dir files)
  then show ?case by simp
next
  case (8 utf8 dir entry node rest files)
  show ?case
  proof (cases "shouldExclude (rel_join dir entry)")
    case True
    with "8.IH"(2)[OF refl] "8.prems" show ?thesis by simp
  next
    case False
    have "keys_ok (walk_node utf8 (rel_join dir entry) entry node files)"
      using "8.IH"(1)[OF refl False "8.prems" False] .
    with "8.IH"(2)[OF refl] False show ?thesis by simp
  qed
qed
lemma read_specific_step_keys:
  "fst ` set (read_specific_step utf8 disk files p) =
     fst ` set files \<union> (if \<not> shouldExclude p \<and> (\<exists>buffer. disk p = RegularFile buffer)
                                \<and> p \<noteq> ''__proto__'' then {p} else {})"
proof (cases "shouldExclude p")
  case True
  then show ?thesis by (simp add: read_specific_step_def)
next
  case False
  show ?thesis
  proof (cases "disk p")
    case (RegularFile buffer)
    have step: "read_specific_step utf8 disk files p
                  = obj_set p (read_entry utf8 (basename p) buffer) files"
      using False RegularFile by (simp add: read_specific_step_def)
    have isfile: "\<exists>buffer. disk p = RegularFile buffer"
      using RegularFile by simp
    show ?thesis
    proof (cases "p = ''__proto__''")
      case True
      then have "obj_set p (read_entry utf8 (basename p) buffer) files = files"
        by (simp add: obj_set_def)
      with True show ?thesis unfolding step by simp
    next
      case stored: False
      then have "fst ` set (obj_set p (read_entry utf8 (basename p) buffer) files)
                   = insert p (fst ` set files)"
        by (simp add: keys_obj_set)
      with stored False isfile show ?thesis unfolding step by simp
    qed
  qed (simp_all add: read_specific_step_def False)
qed

lemma read_specific_fold_keys:
  "fst ` set (foldl (read_specific_step utf8 disk) files ps) =
     fst ` set files \<union> {p \<in> set ps. \<not> shouldExclude p \<and> (\<exists>buffer. disk p = RegularFile buffer)
                                  \<and> p \<noteq> ''__proto__''}"
proof (induction ps arbitrary: files)
  case Nil
  then show ?case by simp
next
  case (Cons p ps)
  show ?case
    unfolding foldl_Cons Cons.IH read_specific_step_keys by auto
qed

lemma set_fold_set_add: "set (foldl (\<lambda>s p. set_add p s) acc xs) = set acc \<union> set xs"
  by (induction xs arbitrary: acc) (auto simp: set_add_def)

lemma set_fold_essentials:
  "set (foldl (\<lambda>s c. if existsSync (disk c) then set_add c s else s) acc cs)
     = set acc \<union> {c \<in> set cs. existsSync (disk c)}"
  by (induction cs arbitrary: acc) (auto simp: set_add_def)

lemma readSpecificFiles_keys:
  "fst ` set (readSpecificFiles utf8 disk filePaths includeEssentials) =
     {p \<in> set filePaths \<union> (if includeEssentials then set ESSENTIAL_CONFIG_FILES else {}).
        \<not> shouldExclude p \<and> (\<exists>buffer. disk p = RegularFile buffer) \<and> p \<noteq> ''__proto__''}"
proof -
  have ex: "existsSync (RegularFile buffer)" for buffer
    by (simp add: existsSync_def)
  show ?thesis
    unfolding readSpecificFiles_def Let_def read_specific_fold_keys
    by (auto simp: set_fold_set_add set_fold_essentials ex)
qed

lemma shouldExclude_env_production: "shouldExclude ''.env.production''"
  by code_simp

lemma shouldExclude_secrets_env: "shouldExclude ''secrets/.env''"
  by code_simp

lemma not_shouldExclude_package_json: "\<not> shouldExclude ''package.json''"
  by code_simp


lemma readProjectFiles_keys: "keys_ok (readProjectFiles utf8 rootDir)"
proof (cases rootDir)
  case (Directory entries)
  have "keys_ok []" by (simp add: keys_ok_def)
  then show ?thesis
    using walk_keys(2)[of "[]" utf8 "[]" entries] Directory by (simp add: readProjectFiles_def)
qed (simp_all add: readProjectFiles_def keys_ok_def)

text \<open>
  Claim C3, as amended. Every key of an assembled file map, from \<open>readProjectFiles\<close>
  or from \<open>readSpecificFiles\<close>, is a path that \<open>shouldExclude\<close> does not exclude; the paths
  \<^verbatim>\<open>.env.production\<close> and \<^verbatim>\<open>secrets/.env\<close> are excluded, so they are keys of no result.
  \<^verbatim>\<open>package.json\<close> is a key of the \<open>readSpecificFiles\<close> result whenever it is a
  readable regular file under the root and either essential files are included or the
  path list names it.
\<close>

theorem assembled_keys_survive_exclusion:
  "(\<forall>k \<in> fst ` set (readProjectFiles utf8 rootDir). \<not> shouldExclude k)
   \<and> (\<forall>k \<in> fst ` set (readSpecificFiles utf8 disk filePaths includeEssentials). \<not> shouldExclude k)
   \<and> shouldExclude ''.env.production'' \<and> shouldExclude ''secrets/.env''
   \<and> ''.env.production'' \<notin> fst ` set (readProjectFiles utf8 rootDir)
   \<and> ''secrets/.env'' \<notin> fst ` set (readProjectFiles utf8 rootDir)
   \<and> ''.env.production'' \<notin> fst ` set (readSpecificFiles utf8 disk filePaths includeEssentials)
   \<and> ''secrets/.env'' \<notin> fst ` set (readSpecificFiles utf8 disk filePaths includeEssentials)
   \<and> ((\<exists>buffer. disk ''package.json'' = RegularFile buffer)
        \<and> (includeEssentials \<or> ''package.json'' \<in> set filePaths)
       \<longrightarrow> ''package.json'' \<in> fst ` set (readSpecificFiles utf8 disk filePaths includeEssentials))"
proof -
  have all: "\<forall>k \<in> fst ` set (readProjectFiles utf8 rootDir). \<not> shouldExclude k"
    using readProjectFiles_keys[of utf8 rootDir] by (simp add: keys_ok_def)
  have spec: "\<forall>k \<in> fst ` set (readSpecificFiles utf8 disk filePaths includeEssentials). \<not> shouldExclude k"
    unfolding readSpecificFiles_keys by blast
  have ess: "''package.json'' \<in> set ESSENTIAL_CONFIG_FILES"
    by (simp add: ESSENTIAL_CONFIG_FILES_def)
  have pkg: "(\<exists>buffer. disk ''package.json'' = RegularFile buffer)
        \<and> (includeEssentials \<or> ''package.json'' \<in> set filePaths)
       \<longrightarrow> ''package.json'' \<in> fst ` set (readSpecificFiles utf8 disk filePaths includeEssentials)"
    unfolding readSpecificFiles_keys using ess not_shouldExclude_package_json by auto
  from all spec pkg shouldExclude_env_production shouldExclude_secrets_env
  show ?thesis by blast
qed

theorem assembled_keys_survive_exclusion_witness:
  "fst ` set (readProjectFiles ascii_text sample_root) = {''a.ts''}
   \<and> \<not> shouldExclude ''a.ts''
   \<and> (\<exists>buffer. disk_package_json ''package.json'' = RegularFile buffer)
   \<and> ''package.json'' \<notin> set [''.env.production'', ''secrets/.env'']
   \<and> ''package.json'' \<in> fst ` set (readSpecificFiles ascii_text disk_package_json
                                       [''.env.production'', ''secrets/.env''] True)
   \<and> \<not> shouldExclude ''package.json''
   \<and> ''.env.production'' \<notin> fst ` set (readSpecificFiles ascii_text disk_package_json
                                       [''.env.production'', ''secrets/.env''] True)"
proof -
  have tree: "map fst (readProjectFiles ascii_text sample_root) = [''a.ts'']"
    by code_simp
  have keys: "fst ` set (readProjectFiles ascii_text sample_root) = {''a.ts''}"
    using arg_cong[OF tree, of set] by simp
  have isfile: "\<exists>buffer. disk_package_json ''package.json'' = RegularFile buffer"
    by (simp add: disk_package_json_def)
  note inst = assembled_keys_survive_exclusion[of ascii_text sample_root disk_package_json
      "[''.env.production'', ''secrets/.env'']" True]
  from inst have tree_ok: "\<forall>k \<in> fst ` set (readProjectFiles ascii_text sample_root). \<not> shouldExclude k"
    by (elim conjE) assumption
  from inst have spec_ok: "\<forall>k \<in> fst ` set (readSpecificFiles ascii_text disk_package_json
      [''.env.production'', ''secrets/.env''] True). \<not> shouldExclude k"
    by (elim conjE) assumption
  from inst have ne: "''.env.production'' \<notin> fst ` set (readSpecificFiles ascii_text
      disk_package_json [''.env.production'', ''secrets/.env''] True)"
    by (elim conjE) assumption
  from inst have imp: "(\<exists>buffer. disk_package_json ''package.json'' = RegularFile buffer)
        \<and> (True \<or> ''package.json'' \<in> set [''.env.production'', ''secrets/.env''])
       \<longrightarrow> ''package.json'' \<in> fst ` set (readSpecificFiles ascii_text disk_package_json
             [''.env.production'', ''secrets/.env''] True)"
    by (elim conjE) assumption
  from imp isfile have pkg: "''package.json'' \<in> fst ` set (readSpecificFiles ascii_text
      disk_package_json [''.env.production'', ''secrets/.env''] True)"
    by simp
  from spec_ok pkg have np: "\<not> shouldExclude ''package.json''" by (rule bspec)
  have "''a.ts'' \<in> fst ` set (readProjectFiles ascii_text sample_root)"
    unfolding keys by simp
  with tree_ok have na: "\<not> shouldExclude ''a.ts''" by (rule bspec)
  from keys na isfile pkg np ne show ?thesis by (intro conjI) simp_all
qed

text \<open>
  The claim as stated fails for \<^verbatim>\<open>package.json\<close>: it exists on disk and is no key of the
  result when \<open>includeEssentials\<close> is off and the list does not name it, and when it is
  not a regular file.
\<close>

theorem package_json_counterexample:
  "existsSync (disk_package_json ''package.json'')
   \<and> ''package.json'' \<notin> fst ` set (readSpecificFiles ascii_text disk_package_json [] False)
   \<and> existsSync (disk_package_dir ''package.json'')
   \<and> ''package.json'' \<notin> fst ` set (readSpecificFiles ascii_text disk_package_dir [] True)"
  by (simp add: readSpecificFiles_keys existsSync_def disk_package_json_def disk_package_dir_def)

section \<open>Git utilities: lemmas\<close>

lemma getGitDiff_no_base:
  "base_or_default run b = None \<Longrightarrow> getGitDiff run maxBytes b = None"
  by (simp add: getGitDiff_def)

lemma getGitDiff_empty_diff:
  "base_or_default run b = Some d \<Longrightarrow>
   gitExec run (''git merge-base '' @ d @ '' HEAD'') = Some m \<Longrightarrow>
   gitExec run (''git diff '' @ m @ ''...HEAD'') = Some [] \<Longrightarrow>
   getGitDiff run maxBytes b = None"
  by (simp add: getGitDiff_def Let_def split: option.splits)

lemma getGitDiff_Some:
  assumes "getGitDiff run maxBytes b = Some r"
  shows "base_or_default run b = Some (baseBranch r) \<and> diff r \<noteq> [] \<and> 0 < totalBytes r
       \<and> currentBranch r \<noteq> baseBranch r"
  using assms
  by (auto simp: getGitDiff_def Let_def split: option.splits if_splits)

text \<open>
  Claim C7, as amended. \<open>getGitDiff\<close> returns \<open>None\<close> (the source's \<^verbatim>\<open>null\<close>) when no
  base branch can be determined, and the same \<open>None\<close> when the base is known and the
  diff against the merge base is empty: the return value does not tell the two apart.
  A result is returned only with a determined base branch that differs from the current
  branch, and then its diff is not empty.
\<close>

theorem getGitDiff_null_cases:
  "(base_or_default run b = None \<longrightarrow> getGitDiff run maxBytes b = None)
   \<and> (\<forall>d m. base_or_default run b = Some d
          \<and> gitExec run (''git merge-base '' @ d @ '' HEAD'') = Some m
          \<and> gitExec run (''git diff '' @ m @ ''...HEAD'') = Some []
        \<longrightarrow> getGitDiff run maxBytes b = None)
   \<and> (\<forall>r. getGitDiff run maxBytes b = Some r
        \<longrightarrow> base_or_default run b = Some (baseBranch r) \<and> diff r \<noteq> [] \<and> 0 < totalBytes r
            \<and> currentBranch r \<noteq> baseBranch r)"
  using getGitDiff_no_base getGitDiff_empty_diff getGitDiff_Some by blast

lemma repo_no_base_default: "getDefaultBranch repo_no_base = None"
  by code_simp

lemma repo_no_changes_default: "getDefaultBranch repo_no_changes = Some ''main''"
  by code_simp

lemma repo_no_changes_merge_base:
  "gitExec repo_no_changes (''git merge-base '' @ ''main'' @ '' HEAD'') = Some ''0a1b2c3d4e''"
  by code_simp

lemma repo_no_changes_diff:
  "gitExec repo_no_changes (''git diff '' @ ''0a1b2c3d4e'' @ ''...HEAD'') = Some []"
  by code_simp

lemma repo_changed_diff:
  "getGitDiff repo_changed 50000 None =
     Some \<lparr>baseBranch = ''main'', currentBranch = ''feature'', mergeBase = ''0a1b2c3'',
           diff = ''diff --git a/src/App.tsx b/src/App.tsx'', diffStat = ''1 file changed'',
           isTruncated = False, totalBytes = 38\<rparr>"
  by code_simp

theorem getGitDiff_null_cases_witness:
  "base_or_default repo_no_base None = None
   \<and> getGitDiff repo_no_base 50000 None = None
   \<and> base_or_default repo_no_changes None = Some ''main''
   \<and> gitExec repo_no_changes (''git merge-base '' @ ''main'' @ '' HEAD'') = Some ''0a1b2c3d4e''
   \<and> gitExec repo_no_changes (''git diff '' @ ''0a1b2c3d4e'' @ ''...HEAD'') = Some []
   \<and> getGitDiff repo_no_changes 50000 None = None
   \<and> (\<exists>r. getGitDiff repo_changed 50000 None = Some r
        \<and> base_or_default repo_changed None = Some (baseBranch r) \<and> diff r \<noteq> [])"
proof -
  have a: "base_or_default repo_no_base None = None"
    by (simp add: base_or_default_def repo_no_base_default)
  have b: "base_or_default repo_no_changes None = Some ''main''"
    by (simp add: base_or_default_def repo_no_changes_default)
  from a getGitDiff_null_cases[of repo_no_base None 50000]
  have 1: "getGitDiff repo_no_base 50000 None = None" by blast
  from b repo_no_changes_merge_base repo_no_changes_diff
    getGitDiff_null_cases[of repo_no_changes None 50000]
  have 2: "getGitDiff repo_no_changes 50000 None = None" by blast
  from repo_changed_diff getGitDiff_null_cases[of repo_changed None 50000]
  have 3: "\<exists>r. getGitDiff repo_changed 50000 None = Some r
        \<and> base_or_default repo_changed None = Some (baseBranch r) \<and> diff r \<noteq> []" by blast
  from a b 1 2 3 repo_no_changes_merge_base repo_no_changes_diff show ?thesis by blast
qed

text \<open>
  The claim as stated fails: a repository with no base branch at all and a repository
  with no commit ahead of its base yield the same return value.
\<close>

theorem getGitDiff_indistinguishable_counterexample:
  "getDefaultBranch repo_no_base = None
   \<and> getDefaultBranch repo_no_changes = Some ''main''
   \<and> gitExec repo_no_changes ''git diff 0a1b2c3d4e...HEAD'' = Some []
   \<and> getGitDiff repo_no_base 50000 None = getGitDiff repo_no_changes 50000 None"
proof -
  have 1: "getGitDiff repo_no_base 50000 None = None" by code_simp
  have 2: "getGitDiff repo_no_changes 50000 None = None" by code_simp
  have 3: "gitExec repo_no_changes ''git diff 0a1b2c3d4e...HEAD'' = Some []" by code_simp
  from 1 2 3 repo_no_base_default repo_no_changes_default show ?thesis by simp
qed


lemma endsWith_suffix: "endsWith s p = suffix p s"
proof
  assume "endsWith s p"
  then have "s = take (length s - length p) s @ p"
    using append_take_drop_id[of "length s - length p" s] by (simp add: endsWith_def)
  then show "suffix p s" by (rule suffixI)
next
  assume "suffix p s"
  then obtain zs where "s = zs @ p" by (auto simp: suffix_def)
  then show "endsWith s p" by (simp add: endsWith_def)
qed

lemma strip_git_suffix_ends:
  assumes "endsWith (strip_git_suffix u) ''.git''"
  shows "endsWith u ''.git.git''"
proof (cases "endsWith u ''.git''")
  case True
  then have "drop (length u - 4) u = ''.git''"
    by (simp add: endsWith_def eval_nat_numeral)
  then have u: "u = take (length u - 4) u @ ''.git''"
    using append_take_drop_id[of "length u - 4" u] by simp
  from True have c: "strip_git_suffix u = take (length u - 4) u"
    by (simp add: strip_git_suffix_def)
  from assms c obtain x where "take (length u - 4) u = x @ ''.git''"
    by (auto simp: endsWith_suffix suffix_def)
  with u have "u = x @ ''.git.git''" by simp
  then have "suffix ''.git.git'' u" by (rule suffixI)
  then show ?thesis by (simp only: endsWith_suffix)
next
  case False
  with assms show ?thesis by (simp add: strip_git_suffix_def)
qed

lemma replace_colon_id: "CHR '':'' \<notin> set s \<Longrightarrow> replace_first '':'' ''/'' s = s"
  by (induction s) (auto simp: startsWith_def)

lemma replace_colon_slash: "CHR '':'' \<in> set s \<Longrightarrow> CHR ''/'' \<in> set (replace_first '':'' ''/'' s)"
  by (induction s) (auto simp: startsWith_def)

lemma replace_colon_set: "set (replace_first '':'' ''/'' s) \<subseteq> insert CHR ''/'' (set s)"
  by (induction s) (auto simp: startsWith_def)

lemma replace_colon_suffix:
  "suffix ''.git'' (replace_first '':'' ''/'' s) \<Longrightarrow> suffix ''.git'' s"
proof (induction s)
  case Nil
  then show ?case by simp
next
  case (Cons c cs)
  show ?case
  proof (cases "c = CHR '':''")
    case True
    with Cons.prems have "suffix ''.git'' (CHR ''/'' # cs)" by (simp add: startsWith_def)
    then have "suffix ''.git'' cs" by (auto simp: suffix_Cons)
    then show ?thesis by (simp add: suffix_Cons)
  next
    case False
    with Cons.prems have s: "suffix ''.git'' (c # replace_first '':'' ''/'' cs)"
      by (simp add: startsWith_def)
    then consider (whole) "''.git'' = c # replace_first '':'' ''/'' cs"
      | (tail) "suffix ''.git'' (replace_first '':'' ''/'' cs)"
      by (auto simp: suffix_Cons)
    then show ?thesis
    proof cases
      case whole
      then have r: "replace_first '':'' ''/'' cs = ''git''" and c: "c = CHR ''.''" by simp_all
      have "CHR '':'' \<notin> set cs"
      proof
        assume "CHR '':'' \<in> set cs"
        then have "CHR ''/'' \<in> set (replace_first '':'' ''/'' cs)" by (rule replace_colon_slash)
        with r show False by simp
      qed
      then have "cs = ''git''" using r by (simp add: replace_colon_id)
      with c show ?thesis by simp
    next
      case tail
      then have "suffix ''.git'' cs" by (rule Cons.IH)
      then show ?thesis by (simp add: suffix_Cons)
    qed
  qed
qed

lemma http_scheme_rest_suffix: "http_scheme_rest s = Some r \<Longrightarrow> suffix r s"
  by (auto simp: http_scheme_rest_def suffix_drop split: if_splits)

lemma strip_http_userinfo_suffix: "suffix (strip_http_userinfo s) s"
proof (cases "http_scheme_rest s")
  case None
  then show ?thesis by (simp add: strip_http_userinfo_def)
next
  case (Some rest)
  have "suffix (drop k rest) s" for k
    by (rule suffix_order.trans[OF suffix_drop http_scheme_rest_suffix[OF Some]])
  then show ?thesis by (simp add: strip_http_userinfo_def Some Let_def)
qed

lemma strip_http_scheme_suffix: "suffix (strip_http_scheme s) s"
  by (cases "http_scheme_rest s") (simp_all add: strip_http_scheme_def http_scheme_rest_suffix)

lemma sanitize_git_suffix:
  assumes r: "sanitizeRemoteUrl parseURL (Some u) = Some r" and e: "endsWith r ''.git''"
  shows "endsWith u ''.git.git''
       \<or> (\<exists>h p. parseURL (strip_git_suffix u) = Some (h, p) \<and> r = h @ p)"
proof -
  let ?c = "strip_git_suffix u"
  from r have ne: "u \<noteq> []" by (auto simp: sanitizeRemoteUrl_def split: if_splits)
  consider (ssh) "startsWith ?c ''git@''"
    | (url) "\<not> startsWith ?c ''git@''" "parseURL ?c \<noteq> None"
    | (raw) "\<not> startsWith ?c ''git@''" "parseURL ?c = None"
    by blast
  then show ?thesis
  proof cases
    case ssh
    with r ne have "r = replace_first '':'' ''/'' (drop 4 ?c)"
      by (simp add: sanitizeRemoteUrl_def Let_def)
    with e have "suffix ''.git'' (replace_first '':'' ''/'' (drop 4 ?c))"
      by (simp only: endsWith_suffix)
    then have "suffix ''.git'' (drop 4 ?c)" by (rule replace_colon_suffix)
    then have "suffix ''.git'' ?c" by (rule suffix_order.trans[OF _ suffix_drop])
    then have "endsWith ?c ''.git''" by (simp only: endsWith_suffix)
    then show ?thesis using strip_git_suffix_ends by blast
  next
    case url
    then obtain h p where "parseURL ?c = Some (h, p)" by auto
    with url r ne show ?thesis by (simp add: sanitizeRemoteUrl_def Let_def)
  next
    case raw
    with r ne have "r = strip_http_scheme (strip_http_userinfo ?c)"
      by (simp add: sanitizeRemoteUrl_def Let_def)
    then have "suffix r ?c"
      using suffix_order.trans[OF strip_http_scheme_suffix strip_http_userinfo_suffix] by simp
    moreover from e have "suffix ''.git'' r" by (simp only: endsWith_suffix)
    ultimately have "suffix ''.git'' ?c" by (rule suffix_order.trans[rotated])
    then have "endsWith ?c ''.git''" by (simp only: endsWith_suffix)
    then show ?thesis using strip_git_suffix_ends by blast
  qed
qed

lemma strip_git_suffix_prefix: "\<exists>k. strip_git_suffix u = take k u"
proof (cases "endsWith u ''.git''")
  case True
  then show ?thesis by (auto simp: strip_git_suffix_def)
next
  case False
  then have "strip_git_suffix u = take (length u) u" by (simp add: strip_git_suffix_def)
  then show ?thesis by blast
qed

lemma sanitize_ssh_no_at:
  assumes r: "sanitizeRemoteUrl parseURL (Some u) = Some r"
    and ssh: "startsWith (strip_git_suffix u) ''git@''"
    and at: "CHR ''@'' \<notin> set (drop 4 u)"
  shows "CHR ''@'' \<notin> set r"
proof -
  from r have ne: "u \<noteq> []" by (auto simp: sanitizeRemoteUrl_def split: if_splits)
  from r ne ssh have req: "r = replace_first '':'' ''/'' (drop 4 (strip_git_suffix u))"
    by (simp add: sanitizeRemoteUrl_def Let_def)
  obtain k where k: "strip_git_suffix u = take k u" using strip_git_suffix_prefix by blast
  have "set (drop 4 (take k u)) \<subseteq> set (drop 4 u)"
    by (simp add: drop_take set_take_subset)
  with at k have "CHR ''@'' \<notin> set (drop 4 (strip_git_suffix u))" by auto
  with replace_colon_set[of "drop 4 (strip_git_suffix u)"] req show ?thesis by auto
qed

lemma sanitize_parsed:
  "u \<noteq> [] \<Longrightarrow> \<not> startsWith (strip_git_suffix u) ''git@'' \<Longrightarrow>
   parseURL (strip_git_suffix u) = Some (h, p) \<Longrightarrow>
   sanitizeRemoteUrl parseURL (Some u) = Some (h @ p)"
  by (simp add: sanitizeRemoteUrl_def Let_def)

lemma sanitize_ssh_example:
  "sanitizeRemoteUrl parseURL (Some ''git@github.com:org/repo.git'') = Some ''github.com/org/repo''"
  by (simp add: sanitizeRemoteUrl_def strip_git_suffix_def endsWith_def startsWith_def)

lemma sanitize_https_example:
  "parseURL ''https://token@github.com/org/repo'' = Some (''github.com'', ''/org/repo'') \<Longrightarrow>
   sanitizeRemoteUrl parseURL (Some ''https://token@github.com/org/repo.git'') = Some ''github.com/org/repo''"
  by (simp add: sanitizeRemoteUrl_def strip_git_suffix_def endsWith_def startsWith_def)

lemma getGitInfo_remoteUrl:
  "getGitInfo parseURL run = Some info \<Longrightarrow>
   remoteUrl info = sanitizeRemoteUrl parseURL (gitExec run ''git remote get-url origin'')"
  by (auto simp: getGitInfo_def Let_def split: if_splits)


text \<open>
  Claim C10, as amended. \<open>sanitizeRemoteUrl\<close> returns \<open>None\<close> for an absent or empty URL
  and a string for any other. One trailing \<^verbatim>\<open>.git\<close> is removed before anything else, so
  the result ends in \<^verbatim>\<open>.git\<close> only if the input ended in \<^verbatim>\<open>.git.git\<close> or the URL parser
  returned such a host and pathname. For an SSH URL \<^verbatim>\<open>git@...\<close> with no further \<^verbatim>\<open>@\<close> the
  result contains no \<^verbatim>\<open>@\<close>; for a URL the parser accepts, the result is the parsed host
  followed by the parsed pathname, so nothing of the userinfo is kept. The two
  documented examples map to \<^verbatim>\<open>github.com/org/repo\<close>, and \<open>getGitInfo\<close> stores the origin
  URL only as \<open>sanitizeRemoteUrl\<close> returns it.
\<close>

theorem sanitizeRemoteUrl_cases:
  "sanitizeRemoteUrl parseURL None = None
   \<and> sanitizeRemoteUrl parseURL (Some []) = None
   \<and> (u \<noteq> [] \<longrightarrow> (\<exists>r. sanitizeRemoteUrl parseURL (Some u) = Some r))
   \<and> (\<forall>r. sanitizeRemoteUrl parseURL (Some u) = Some r \<and> endsWith r ''.git''
        \<longrightarrow> endsWith u ''.git.git''
            \<or> (\<exists>h p. parseURL (strip_git_suffix u) = Some (h, p) \<and> r = h @ p))
   \<and> (\<forall>r. sanitizeRemoteUrl parseURL (Some u) = Some r
          \<and> startsWith (strip_git_suffix u) ''git@'' \<and> CHR ''@'' \<notin> set (drop 4 u)
        \<longrightarrow> CHR ''@'' \<notin> set r)
   \<and> (\<forall>h p. u \<noteq> [] \<and> \<not> startsWith (strip_git_suffix u) ''git@''
          \<and> parseURL (strip_git_suffix u) = Some (h, p)
        \<longrightarrow> sanitizeRemoteUrl parseURL (Some u) = Some (h @ p))
   \<and> sanitizeRemoteUrl parseURL (Some ''git@github.com:org/repo.git'') = Some ''github.com/org/repo''
   \<and> (parseURL ''https://token@github.com/org/repo'' = Some (''github.com'', ''/org/repo'')
        \<longrightarrow> sanitizeRemoteUrl parseURL (Some ''https://token@github.com/org/repo.git'')
            = Some ''github.com/org/repo'')
   \<and> (\<forall>info. getGitInfo parseURL run = Some info
        \<longrightarrow> remoteUrl info = sanitizeRemoteUrl parseURL (gitExec run ''git remote get-url origin''))"
proof -
  have 1: "sanitizeRemoteUrl parseURL None = None"
    by (simp add: sanitizeRemoteUrl_def)
  have 2: "sanitizeRemoteUrl parseURL (Some []) = None"
    by (simp add: sanitizeRemoteUrl_def)
  have 3: "u \<noteq> [] \<longrightarrow> (\<exists>r. sanitizeRemoteUrl parseURL (Some u) = Some r)"
    by (auto simp: sanitizeRemoteUrl_def Let_def split: option.splits)
  from 1 2 3 sanitize_git_suffix[of parseURL u] sanitize_ssh_no_at[of parseURL u]
    sanitize_parsed[of u parseURL] sanitize_ssh_example[of parseURL]
    sanitize_https_example[of parseURL] getGitInfo_remoteUrl[of parseURL run]
  show ?thesis by blast
qed

theorem sanitizeRemoteUrl_cases_witness:
  "''git@github.com:org/repo.git.git'' \<noteq> []
   \<and> sanitizeRemoteUrl sample_url_parser (Some ''git@github.com:org/repo.git.git'')
       = Some ''github.com/org/repo.git''
   \<and> endsWith ''github.com/org/repo.git'' ''.git''
   \<and> endsWith ''git@github.com:org/repo.git.git'' ''.git.git''
   \<and> startsWith (strip_git_suffix ''git@github.com:org/repo.git.git'') ''git@''
   \<and> CHR ''@'' \<notin> set (drop 4 ''git@github.com:org/repo.git.git'')
   \<and> CHR ''@'' \<notin> set ''github.com/org/repo.git''
   \<and> sample_url_parser ''https://token@github.com/org/repo'' = Some (''github.com'', ''/org/repo'')
   \<and> sanitizeRemoteUrl sample_url_parser (Some ''https://token@github.com/org/repo.git'')
       = Some ''github.com/org/repo''
   \<and> (\<exists>info. getGitInfo sample_url_parser repo_changed = Some info
        \<and> remoteUrl info = Some ''github.com/org/repo'')"
proof -
  note ssh = sanitizeRemoteUrl_cases[of sample_url_parser "''git@github.com:org/repo.git.git''" repo_changed]
  have r: "sanitizeRemoteUrl sample_url_parser (Some ''git@github.com:org/repo.git.git'')
       = Some ''github.com/org/repo.git''"
    by code_simp
  have e: "endsWith ''github.com/org/repo.git'' ''.git''" by code_simp
  have s: "startsWith (strip_git_suffix ''git@github.com:org/repo.git.git'') ''git@''" by code_simp
  have a: "CHR ''@'' \<notin> set (drop 4 ''git@github.com:org/repo.git.git'')" by simp
  have p: "sample_url_parser ''https://token@github.com/org/repo'' = Some (''github.com'', ''/org/repo'')"
    by (simp add: sample_url_parser_def)
  have np: "\<And>h q. sample_url_parser (strip_git_suffix ''git@github.com:org/repo.git.git'') \<noteq> Some (h, q)"
    by (simp add: sample_url_parser_def strip_git_suffix_def endsWith_def)
  from ssh r e np have ee: "endsWith ''git@github.com:org/repo.git.git'' ''.git.git''" by blast
  from ssh r s a have na: "CHR ''@'' \<notin> set ''github.com/org/repo.git''" by blast
  from ssh p have h: "sanitizeRemoteUrl sample_url_parser (Some ''https://token@github.com/org/repo.git'')
       = Some ''github.com/org/repo''" by blast
  have g: "\<exists>info. getGitInfo sample_url_parser repo_changed = Some info"
    by (simp add: getGitInfo_def isGitRepo_def gitExec_def repo_changed_def trim_def is_space_def Let_def)
  have o: "gitExec repo_changed ''git remote get-url origin'' = Some ''git@github.com:org/repo.git''"
    by code_simp
  from ssh g o have gi: "\<exists>info. getGitInfo sample_url_parser repo_changed = Some info
        \<and> remoteUrl info = Some ''github.com/org/repo''" by force
  from r e ee s a na p h gi show ?thesis by simp
qed

text \<open>
  The claim as stated fails: a trailing \<^verbatim>\<open>.git\<close> survives when the input ends in
  \<^verbatim>\<open>.git.git\<close>, an \<^verbatim>\<open>@\<close> of the input survives on the SSH path, and the empty string
  is mapped to \<open>None\<close>, not to a string.
\<close>

theorem sanitizeRemoteUrl_counterexample:
  "sanitizeRemoteUrl no_url_parser (Some ''git@github.com:org/repo.git.git'')
     = Some ''github.com/org/repo.git''
   \<and> endsWith ''github.com/org/repo.git'' ''.git''
   \<and> sanitizeRemoteUrl no_url_parser (Some ''git@deploy:s3cret@host:repo'')
     = Some ''deploy/s3cret@host:repo''
   \<and> sanitizeRemoteUrl no_url_parser (Some []) = None"
  by code_simp

section \<open>Share transfer: lemmas\<close>

lemma chunkProgress_range:
  assumes "i < n"
  shows "10 \<le> chunkProgress i n \<and> chunkProgress i n < 40"
proof -
  from assms have n: "0 < real n" by simp
  from assms n have lt: "real i / real n < 1" by simp
  have ge: "0 \<le> real i / real n" by simp
  from ge have "0 \<le> (real i / real n) * 30" by simp
  then have lo: "0 \<le> \<lfloor>(real i / real n) * 30\<rfloor>" by simp
  from lt have "(real i / real n) * 30 < 1 * 30" by (intro mult_strict_right_mono) simp_all
  then have "(real i / real n) * 30 < 30" by simp
  then have hi: "\<lfloor>(real i / real n) * 30\<rfloor> < 30" by (simp add: floor_less_iff)
  from lo hi show ?thesis by (simp add: chunkProgress_def)
qed

lemma chunkProgress_three:
  "chunkProgress 0 3 = 10" "chunkProgress 1 3 = 20" "chunkProgress 2 3 = 30"
  by (simp_all add: chunkProgress_def)

lemma chunkProgress_three_Suc:
  "chunkProgress (Suc 0) 3 = 20" "chunkProgress (Suc (Suc 0)) 3 = 30"
  using chunkProgress_three by (simp_all add: numeral_2_eq_2)

lemma mappedPct_mono: "p \<le> q \<Longrightarrow> mappedPct p \<le> mappedPct q"
  unfolding mappedPct_def by (intro add_left_mono floor_mono) simp

lemma mappedPct_range:
  assumes "0 \<le> p" "p \<le> 100"
  shows "45 \<le> mappedPct p \<and> mappedPct p \<le> 100"
proof -
  from assms have "0 \<le> (p / 100) * 55" by simp
  then have lo: "0 \<le> \<lfloor>(p / 100) * 55\<rfloor>" by simp
  from assms have "(p / 100) * 55 \<le> 55" by simp
  then have hi: "\<lfloor>(p / 100) * 55\<rfloor> \<le> 55" by (simp add: floor_le_iff)
  from lo hi show ?thesis by (simp add: mappedPct_def)
qed

lemma upload_loop_all_ok:
  "(\<forall>j. i \<le> j \<and> j < i + length chunks
        \<longrightarrow> (\<exists>r. upload j = Some r \<and> ok r \<and> json_object parse r)) \<Longrightarrow>
   upload_loop parse upload n i chunks cbs =
     (cbs @ map2 (\<lambda>j c. OnProgress (JNum (of_int (chunkProgress j n)))
                          (JStr (upload_message j n (length c))))
              [i..<i + length chunks] chunks, None)"
proof (induction chunks arbitrary: i cbs)
  case Nil
  then show ?case by simp
next
  case (Cons c rest)
  from Cons.prems obtain r where r: "upload i = Some r" "ok r" "json_object parse r"
    by force
  have tl: "\<forall>j. Suc i \<le> j \<and> j < Suc i + length rest
        \<longrightarrow> (\<exists>r. upload j = Some r \<and> ok r \<and> json_object parse r)"
    using Cons.prems by simp
  have "i < i + length (c # rest)" by simp
  then have "[i..<i + length (c # rest)] = i # [Suc i..<i + length (c # rest)]"
    by (rule upt_conv_Cons)
  then have upt: "[i..<i + length (c # rest)] = i # [Suc i..<Suc i + length rest]"
    by simp
  show ?case
    unfolding upt using r Cons.IH[OF tl] by (simp add: Let_def)
qed

lemma upload_loop_three:
  assumes len: "length chunks = 3"
    and up: "\<forall>i<3. \<exists>resp. upload i = Some resp \<and> ok resp \<and> json_object parse resp"
  shows "\<exists>s1 s2 s3. upload_loop parse upload 3 0 chunks cbs =
           (cbs @ [OnProgress (JNum 10) s1, OnProgress (JNum 20) s2, OnProgress (JNum 30) s3], None)"
proof -
  from len obtain c1 c2 c3 where cs: "chunks = [c1, c2, c3]"
    by (auto simp: length_Suc_conv eval_nat_numeral)
  have all: "\<forall>j. 0 \<le> j \<and> j < 0 + length chunks
        \<longrightarrow> (\<exists>r. upload j = Some r \<and> ok r \<and> json_object parse r)"
    using up len by simp
  have idx: "[0..<0 + length [c1, c2, c3]] = [0, Suc 0, Suc (Suc 0)]"
    by (simp add: upt_conv_Cons)
  show ?thesis
    using upload_loop_all_ok[OF all, where n = 3 and cbs = cbs] unfolding cs idx
    by (simp add: chunkProgress_three chunkProgress_three_Suc)
qed








text \<open>After a successful init and upload phase the share is the relay of the finalize stream.\<close>

lemma chunked_share_uploaded:
  assumes fin: "finalizeResponse net = Some resp" "ok resp" "reads resp = Some rs"
    and up: "init_and_uploads_ok parse net (length chunks)"
  shows "chunked_share parse coerce net chunks
           = sse_read parse (remap_progress coerce)
               ''Chunked share stream ended without completion'' (last_read resp) [] rs
               ([OnProgress (JNum 5)
                   (JStr (''Splitting into '' @ show_nat (length chunks) @ '' chunks...'')),
                 OnProgress (JNum 8) (JStr ''Initializing chunked upload...'')]
                @ map2 (\<lambda>j c. OnProgress (JNum (of_int (chunkProgress j (length chunks))))
                                 (JStr (upload_message j (length chunks) (length c))))
                    [0..<length chunks] chunks
                @ [OnProgress (JNum 42) (JStr ''Finalizing upload and starting analysis...'')])"
proof -
  from up obtain r s where init: "initResponse net = Some r" "ok r"
      "parse (text_body r) = Some s" "get_prop s ''sessionId'' \<noteq> None"
    by (auto simp: init_and_uploads_ok_def)
  from up have all: "\<forall>j. 0 \<le> j \<and> j < 0 + length chunks
        \<longrightarrow> (\<exists>r. uploadResponse net j = Some r \<and> ok r \<and> json_object parse r)"
    by (simp add: init_and_uploads_ok_def)
  note loop = upload_loop_all_ok[OF all, where n = "length chunks"]
  from init(4) obtain sid where sid: "get_prop s ''sessionId'' = Some sid" by auto
  have stats: "fst (getChunkStats chunks) = length chunks"
    by (simp add: getChunkStats_def Let_def)
  show ?thesis
    using init(1,2,3) sid fin by (simp add: chunked_share_def Let_def loop stats)
qed







lemma sample_network_ok:
  "init_and_uploads_ok sample_parse (sample_network rs) n"
  by (simp add: init_and_uploads_ok_def sample_network_def json_response_def json_object_def
      sample_parse_def get_prop_def)





text \<open>
  Streams with a \<^verbatim>\<open>complete\<close> event that is not parsed: its data is cut off, is
  \<^verbatim>\<open>null\<close>, or arrives in the read after the event line. A connection that breaks
  instead of closing fails with the error of the runtime.
\<close>

lemma unparsed_complete_streams:
  "\<not> complete_parsed sample_parse complete_cut_off_stream"
  "\<not> complete_parsed sample_parse complete_null_stream"
  "\<not> complete_parsed sample_parse complete_split_stream"
  "callShareWithSSE sample_parse (Some (stream_response complete_cut_off_stream))
     = ([], Rejected (Error ''Share stream ended without completion''))"
  "callShareWithSSE sample_parse (Some (stream_response complete_null_stream))
     = ([], Rejected (Error ''Share stream ended without completion''))"
  "callShareWithSSE sample_parse (Some (stream_response complete_split_stream))
     = ([], Rejected (Error ''Share stream ended without completion''))"
  "callShareWithSSE sample_parse
     (Some ((stream_response progress_only_stream)\<lparr>last_read := ReadFailed\<rparr>))
     = ([OnProgress (JNum 50) (JStr ''x'')], Rejected RuntimeError)"
  by code_simp+
lemma split_on_line: "c \<notin> set l \<Longrightarrow> split_on c (l @ c # r) = l # split_on c r"
  by (induction l) auto

lemma split_on_sse_text:
  "\<forall>l\<in>set ls. CHR 0x0A \<notin> set l \<Longrightarrow> split_on (CHR 0x0A) (sse_text ls) = ls @ [[]]"
proof (induction ls)
  case Nil
  then show ?case by (simp add: sse_text_def)
next
  case (Cons l ls)
  then have l: "CHR 0x0A \<notin> set l" and ls: "\<forall>l\<in>set ls. CHR 0x0A \<notin> set l" by simp_all
  have "sse_text (l # ls) = l @ CHR 0x0A # sse_text ls" by (simp add: sse_text_def)
  then show ?case using split_on_line[OF l, of "sse_text ls"] Cons.IH[OF ls] by simp
qed

lemma remap_progress_number:
  "remap_progress coerce (JNum p) = JNum (of_int (mappedPct p))"
  by (simp add: remap_progress_def to_number_def)

lemma handle_data_progress:
  "handle_data mapPct ''progress'' (JObj [(''percentage'', JNum p), (''step'', JStr s)]) cbs
     = (cbs @ [OnProgress (mapPct (JNum p)) (JStr (if s = [] then ''Processing...'' else s))],
        Completed)"
  by (simp add: handle_data_def get_prop_def js_or_def)

lemma progress_event_lines:
  "startsWith ''event: progress'' ''event: ''"
  "trim (drop 7 ''event: progress'') = ''progress''"
  "\<not> startsWith (''data: '' @ t) ''event: ''"
  "startsWith (''data: '' @ t) ''data: ''"
  "drop 6 (''data: '' @ t) = t"
  "\<not> startsWith [] ''event: ''"
  "\<not> startsWith [] ''data: ''"
  by (simp_all add: startsWith_def trim_def is_space_def)

lemma sse_lines_event:
  "startsWith line ''event: '' \<Longrightarrow>
   sse_lines parse mapPct currentEvent (line # rest) cbs
     = sse_lines parse mapPct (trim (drop 7 line)) rest cbs"
  by simp

lemma sse_lines_data_completed:
  "\<not> startsWith line ''event: '' \<Longrightarrow> startsWith line ''data: '' \<Longrightarrow>
   parse (drop 6 line) = Some d \<Longrightarrow> handle_data mapPct currentEvent d cbs = (cbs', Completed) \<Longrightarrow>
   sse_lines parse mapPct currentEvent (line # rest) cbs = sse_lines parse mapPct [] rest cbs'"
  by simp

lemma sse_lines_skip:
  "\<not> startsWith line ''event: '' \<Longrightarrow> \<not> startsWith line ''data: '' \<Longrightarrow>
   sse_lines parse mapPct currentEvent (line # rest) cbs
     = sse_lines parse mapPct currentEvent rest cbs"
  by simp

lemma sse_lines_progress_events:
  assumes "\<forall>e\<in>set events. parse (fst e) = Some (progress_payload (fst (snd e)) (snd (snd e)))"
  shows "sse_lines parse mapPct [] (concat (map (\<lambda>e. progress_event (fst e)) events)) cbs
           = (cbs @ map (\<lambda>e. OnProgress (mapPct (JNum (real (fst (snd e)))))
                               (JStr (if snd (snd e) = [] then ''Processing...'' else snd (snd e))))
                      events, None)"
  using assms
proof (induction events arbitrary: cbs)
  case Nil
  then show ?case by simp
next
  case (Cons e events)
  let ?R = "concat (map (\<lambda>e. progress_event (fst e)) events)"
  let ?cb = "OnProgress (mapPct (JNum (real (fst (snd e)))))
               (JStr (if snd (snd e) = [] then ''Processing...'' else snd (snd e)))"
  from Cons.prems have p: "parse (fst e) = Some (progress_payload (fst (snd e)) (snd (snd e)))"
    and rest: "\<forall>e\<in>set events. parse (fst e) = Some (progress_payload (fst (snd e)) (snd (snd e)))"
    by simp_all
  have pd: "parse (drop 6 (''data: '' @ fst e))
              = Some (progress_payload (fst (snd e)) (snd (snd e)))"
    by (simp only: progress_event_lines(5) p)
  have hd: "handle_data mapPct ''progress'' (progress_payload (fst (snd e)) (snd (snd e))) cbs
              = (cbs @ [?cb], Completed)"
    by (simp add: progress_payload_def handle_data_progress)
  have lines: "concat (map (\<lambda>e. progress_event (fst e)) (e # events))
      = ''event: progress'' # (''data: '' @ fst e) # [] # ?R"
    by (simp add: progress_event_def)
  have "sse_lines parse mapPct [] (''event: progress'' # (''data: '' @ fst e) # [] # ?R) cbs
      = sse_lines parse mapPct ''progress'' ((''data: '' @ fst e) # [] # ?R) cbs"
    by (simp only: sse_lines_event[OF progress_event_lines(1)] progress_event_lines(2))
  also have "\<dots> = sse_lines parse mapPct [] ([] # ?R) (cbs @ [?cb])"
    by (rule sse_lines_data_completed[where parse = parse and mapPct = mapPct
            and line = "''data: '' @ fst e",
          OF progress_event_lines(3)[of "fst e"] progress_event_lines(4)[of "fst e"] pd hd])
  also have "\<dots> = sse_lines parse mapPct [] ?R (cbs @ [?cb])"
    by (rule sse_lines_skip[OF progress_event_lines(6) progress_event_lines(7)])
  finally show ?case unfolding lines using Cons.IH[OF rest, of "cbs @ [?cb]"] by simp
qed

lemma reported_percentages_append:
  "reported_percentages (a @ b) = reported_percentages a @ reported_percentages b"
  by (simp add: reported_percentages_def)

lemma reported_percentages_uploads:
  "length js = length cs \<Longrightarrow>
   reported_percentages (map2 (\<lambda>j c. OnProgress (f j) (g j c)) js cs) = map f js"
proof (induction js arbitrary: cs)
  case Nil
  then show ?case by (simp add: reported_percentages_def)
next
  case (Cons j js)
  then obtain c cs' where cs: "cs = c # cs'" "length js = length cs'"
    by (cases cs) auto
  from Cons.IH[OF cs(2)] show ?case
    unfolding cs by (simp add: reported_percentages_def)
qed

lemma reported_percentages_progress:
  "reported_percentages (map (\<lambda>e. OnProgress (f e) (g e)) es) = map f es"
  by (induction es) (simp_all add: reported_percentages_def)

text \<open>
  The percentages of a whole chunked share whose finalize stream is a run of progress
  events: 5 and 8, one upload percentage for each chunk, 42, and then the remapped
  percentage of each event.
\<close>

lemma chunked_share_percentages:
  assumes fin: "finalizeResponse net = Some resp" "ok resp"
      "reads resp = Some [sse_text (concat (map (\<lambda>e. progress_event (fst e)) events))]"
    and up: "init_and_uploads_ok parse net (length chunks)"
    and ev: "\<forall>e\<in>set events. CHR 0x0A \<notin> set (fst e)
               \<and> parse (fst e) = Some (progress_payload (fst (snd e)) (snd (snd e)))"
  shows "reported_percentages (fst (chunked_share parse coerce net chunks))
           = map (\<lambda>x. JNum (of_int x))
               ([5, 8] @ map (\<lambda>i. chunkProgress i (length chunks)) [0..<length chunks] @ [42]
                @ map (\<lambda>e. mappedPct (real (fst (snd e)))) events)"
proof -
  let ?lines = "concat (map (\<lambda>e. progress_event (fst e)) events)"
  have nl: "\<forall>l\<in>set ?lines. CHR 0x0A \<notin> set l"
    using ev by (auto simp: progress_event_def)
  have sp: "split_on (CHR 0x0A) ([] @ sse_text ?lines) = ?lines @ [[]]"
    using split_on_sse_text[OF nl] by simp
  from ev have pe: "\<forall>e\<in>set events. parse (fst e) = Some (progress_payload (fst (snd e)) (snd (snd e)))"
    by simp
  have relay: "fst (sse_read parse (remap_progress coerce) msg closing [] [sse_text ?lines] cbs)
      = cbs @ map (\<lambda>e. OnProgress (JNum (of_int (mappedPct (real (fst (snd e))))))
                         (JStr (if snd (snd e) = [] then ''Processing...'' else snd (snd e))))
                events"
    for msg closing cbs
    unfolding sse_read.simps sp Let_def
    by (simp add: sse_lines_progress_events[OF pe] remap_progress_number)
  have len: "length [0..<length chunks] = length chunks" by simp
  show ?thesis
    unfolding chunked_share_uploaded[OF fin up] relay reported_percentages_append
      reported_percentages_uploads[OF len] reported_percentages_progress
    by (simp add: reported_percentages_def)
qed

lemma upt_three: "[0..<3] = [0, 1, 2]"
  by (simp add: upt_rec)

lemma mapped_sorted:
  "sorted ks \<Longrightarrow> sorted (map (\<lambda>k. mappedPct (real k)) ks)"
  by (induction ks) (auto intro: mappedPct_mono)

text \<open>
  Claim C8. With three chunks and every upload accepted, the upload loop reports the
  percentages 10, 20 and 30 for chunks 1, 2 and 3: strictly increasing, and inside the
  upload range from 10 to 40, as every upload percentage is. In the finalize phase
  the relay reports, for a progress event with the server percentage \<open>k\<close> (a whole
  number up to 100), the remapped percentage \<open>mappedPct k\<close>; the remapping is monotone
  on server percentages from 0 to 100, and each mapped value lies between 45 and 100.
  So a chunked share of three chunks whose finalize stream is a run of such progress
  events reports 5, 8, 10, 20, 30, 42 and then the remapped percentage of each event:
  every reported percentage lies between 5 and 100, and the whole sequence ascends
  when the server percentages do.
\<close>

theorem chunked_progress_ranges:
  "(length chunks = 3
      \<and> (\<forall>i<3. \<exists>resp. upload i = Some resp \<and> ok resp \<and> json_object parse resp)
     \<longrightarrow> (\<exists>s1 s2 s3. upload_loop parse upload 3 0 chunks cbs =
           (cbs @ [OnProgress (JNum 10) s1, OnProgress (JNum 20) s2, OnProgress (JNum 30) s3], None)))
   \<and> chunkProgress 0 3 = 10 \<and> chunkProgress 1 3 = 20 \<and> chunkProgress 2 3 = 30
   \<and> chunkProgress 0 3 < chunkProgress 1 3 \<and> chunkProgress 1 3 < chunkProgress 2 3
   \<and> (\<forall>i n. i < n \<longrightarrow> 10 \<le> chunkProgress i n \<and> chunkProgress i n < 40)
   \<and> (\<forall>p q. 0 \<le> p \<and> p \<le> q \<and> q \<le> 100
        \<longrightarrow> mappedPct p \<le> mappedPct q
            \<and> 45 \<le> mappedPct p \<and> mappedPct p \<le> 100
            \<and> 45 \<le> mappedPct q \<and> mappedPct q \<le> 100)
   \<and> (\<forall>k s. k \<le> 100
        \<longrightarrow> handle_data (remap_progress coerce) ''progress'' (progress_payload k s) cbs
              = (cbs @ [OnProgress (JNum (of_int (mappedPct (real k))))
                          (JStr (if s = [] then ''Processing...'' else s))], Completed))
   \<and> (length chunks = 3 \<and> init_and_uploads_ok parse net 3
      \<and> finalizeResponse net = Some resp \<and> ok resp
      \<and> reads resp = Some [sse_text (concat (map (\<lambda>e. progress_event (fst e)) events))]
      \<and> (\<forall>e\<in>set events. CHR 0x0A \<notin> set (fst e)
            \<and> parse (fst e) = Some (progress_payload (fst (snd e)) (snd (snd e)))
            \<and> fst (snd e) \<le> 100)
     \<longrightarrow> reported_percentages (fst (chunked_share parse coerce net chunks))
           = map (\<lambda>x. JNum (of_int x))
               ([5, 8, 10, 20, 30, 42] @ map (\<lambda>e. mappedPct (real (fst (snd e)))) events)
         \<and> (\<forall>x\<in>set ([5, 8, 10, 20, 30, 42]
                       @ map (\<lambda>e. mappedPct (real (fst (snd e)))) events). 5 \<le> x \<and> x \<le> 100)
         \<and> (sorted (map (\<lambda>e. fst (snd e)) events)
             \<longrightarrow> sorted ([5, 8, 10, 20, 30, 42]
                          @ map (\<lambda>e. mappedPct (real (fst (snd e)))) events)))"
proof -
  have m: "\<forall>p q. 0 \<le> p \<and> p \<le> q \<and> q \<le> 100
        \<longrightarrow> mappedPct p \<le> mappedPct q
            \<and> 45 \<le> mappedPct p \<and> mappedPct p \<le> 100
            \<and> 45 \<le> mappedPct q \<and> mappedPct q \<le> 100"
  proof (intro allI impI)
    fix p q :: real
    assume h: "0 \<le> p \<and> p \<le> q \<and> q \<le> 100"
    then have "0 \<le> p" "p \<le> 100" "0 \<le> q" "q \<le> 100" "p \<le> q" by simp_all
    then show "mappedPct p \<le> mappedPct q
            \<and> 45 \<le> mappedPct p \<and> mappedPct p \<le> 100
            \<and> 45 \<le> mappedPct q \<and> mappedPct q \<le> 100"
      using mappedPct_mono mappedPct_range by blast
  qed
  have c: "chunkProgress 0 3 < chunkProgress 1 3 \<and> chunkProgress 1 3 < chunkProgress 2 3"
    unfolding chunkProgress_three by simp
  have u: "length chunks = 3
      \<and> (\<forall>i<3. \<exists>resp. upload i = Some resp \<and> ok resp \<and> json_object parse resp)
     \<longrightarrow> (\<exists>s1 s2 s3. upload_loop parse upload 3 0 chunks cbs =
           (cbs @ [OnProgress (JNum 10) s1, OnProgress (JNum 20) s2, OnProgress (JNum 30) s3], None))"
    using upload_loop_three[of chunks upload parse cbs] by blast
  have r: "\<forall>i n. i < n \<longrightarrow> 10 \<le> chunkProgress i n \<and> chunkProgress i n < 40"
    using chunkProgress_range by blast
  have h: "\<forall>k s. k \<le> 100
        \<longrightarrow> handle_data (remap_progress coerce) ''progress'' (progress_payload k s) cbs
              = (cbs @ [OnProgress (JNum (of_int (mappedPct (real k))))
                          (JStr (if s = [] then ''Processing...'' else s))], Completed)"
    by (simp add: progress_payload_def handle_data_progress remap_progress_number)
  have f: "reported_percentages (fst (chunked_share parse coerce net chunks))
           = map (\<lambda>x. JNum (of_int x))
               ([5, 8, 10, 20, 30, 42] @ map (\<lambda>e. mappedPct (real (fst (snd e)))) events)
         \<and> (\<forall>x\<in>set ([5, 8, 10, 20, 30, 42]
                       @ map (\<lambda>e. mappedPct (real (fst (snd e)))) events). 5 \<le> x \<and> x \<le> 100)
         \<and> (sorted (map (\<lambda>e. fst (snd e)) events)
             \<longrightarrow> sorted ([5, 8, 10, 20, 30, 42]
                          @ map (\<lambda>e. mappedPct (real (fst (snd e)))) events))"
    if len: "length chunks = 3" and up: "init_and_uploads_ok parse net 3"
      and fin: "finalizeResponse net = Some resp" "ok resp"
        "reads resp = Some [sse_text (concat (map (\<lambda>e. progress_event (fst e)) events))]"
      and ev: "\<forall>e\<in>set events. CHR 0x0A \<notin> set (fst e)
            \<and> parse (fst e) = Some (progress_payload (fst (snd e)) (snd (snd e)))
            \<and> fst (snd e) \<le> 100"
  proof (intro conjI impI)
    from up len have up': "init_and_uploads_ok parse net (length chunks)" by simp
    from ev have ev': "\<forall>e\<in>set events. CHR 0x0A \<notin> set (fst e)
            \<and> parse (fst e) = Some (progress_payload (fst (snd e)) (snd (snd e)))"
      by simp
    show "reported_percentages (fst (chunked_share parse coerce net chunks))
           = map (\<lambda>x. JNum (of_int x))
               ([5, 8, 10, 20, 30, 42] @ map (\<lambda>e. mappedPct (real (fst (snd e)))) events)"
      unfolding chunked_share_percentages[OF fin up' ev'] len upt_three
      by (simp add: chunkProgress_three chunkProgress_three_Suc)
  next
    have rng: "45 \<le> mappedPct (real (fst (snd e))) \<and> mappedPct (real (fst (snd e))) \<le> 100"
      if "e \<in> set events" for e
      using ev that mappedPct_range[of "real (fst (snd e))"] by simp
    then have lo: "\<forall>x\<in>set (map (\<lambda>e. mappedPct (real (fst (snd e)))) events). 45 \<le> x \<and> x \<le> 100"
      by auto
    show "\<forall>x\<in>set ([5, 8, 10, 20, 30, 42]
                       @ map (\<lambda>e. mappedPct (real (fst (snd e)))) events). 5 \<le> x \<and> x \<le> 100"
      using lo by auto
    assume a: "sorted (map (\<lambda>e. fst (snd e)) events)"
    have "sorted (map (\<lambda>k. mappedPct (real k)) (map (\<lambda>e. fst (snd e)) events))"
      using a by (rule mapped_sorted)
    then have st: "sorted (map (\<lambda>e. mappedPct (real (fst (snd e)))) events)"
      by (simp add: comp_def)
    show "sorted ([5, 8, 10, 20, 30, 42] @ map (\<lambda>e. mappedPct (real (fst (snd e)))) events)"
      unfolding sorted_append using st lo by auto
  qed
  from u chunkProgress_three c r m h f show ?thesis by (intro conjI impI) blast+
qed
lemma three_progress_events_parse:
  "\<forall>e\<in>set three_progress_events. CHR 0x0A \<notin> set (fst e)
     \<and> sample_parse (fst e) = Some (progress_payload (fst (snd e)) (snd (snd e)))
     \<and> fst (snd e) \<le> 100"
  by (simp add: three_progress_events_def sample_parse_def progress_payload_def)

theorem chunked_progress_ranges_witness:
  \<open>length three_chunks = 3
   \<and> uploadResponse (sample_network progress_stream) 0 = Some (json_response ''{"uploaded":1}'')
   \<and> uploadResponse (sample_network progress_stream) 1 = Some (json_response ''{"uploaded":1}'')
   \<and> uploadResponse (sample_network progress_stream) 2 = Some (json_response ''{"uploaded":1}'')
   \<and> ok (json_response ''{"uploaded":1}'')
   \<and> json_object sample_parse (json_response ''{"uploaded":1}'')
   \<and> (\<exists>s1 s2 s3. upload_loop sample_parse (uploadResponse (sample_network progress_stream)) 3 0
                     three_chunks [] =
        ([OnProgress (JNum 10) s1, OnProgress (JNum 20) s2, OnProgress (JNum 30) s3], None))
   \<and> (1::nat) < 3 \<and> 10 \<le> chunkProgress 1 3 \<and> chunkProgress 1 3 < 40
   \<and> (0::real) \<le> 20 \<and> (20::real) \<le> 80 \<and> (80::real) \<le> 100
   \<and> mappedPct 20 \<le> mappedPct 80 \<and> 45 \<le> mappedPct 20 \<and> mappedPct 80 \<le> 100
   \<and> init_and_uploads_ok sample_parse (sample_network progress_stream) 3
   \<and> finalizeResponse (sample_network progress_stream) = Some (stream_response progress_stream)
   \<and> ok (stream_response progress_stream)
   \<and> reads (stream_response progress_stream)
       = Some [sse_text (concat (map (\<lambda>e. progress_event (fst e)) three_progress_events))]
   \<and> map (\<lambda>e. sample_parse (fst e)) three_progress_events
       = [Some (progress_payload 0 ''start''), Some (progress_payload 50 ''x''),
          Some (progress_payload 100 ''done'')]
   \<and> map (\<lambda>e. fst (snd e)) three_progress_events = [0, 50, 100]
   \<and> (50::nat) \<le> 100
   \<and> handle_data (remap_progress no_coercion) ''progress'' (progress_payload 50 ''x'') []
       = ([OnProgress (JNum 72) (JStr ''x'')], Completed)
   \<and> reported_percentages
        (fst (chunked_share sample_parse no_coercion (sample_network progress_stream) three_chunks))
       = [JNum 5, JNum 8, JNum 10, JNum 20, JNum 30, JNum 42, JNum 45, JNum 72, JNum 100]
   \<and> sorted [5, 8, 10, 20, 30, 42, 45, 72, 100::int]\<close>
proof -
  have len: "length three_chunks = 3" by (simp add: three_chunks_def)
  have u: \<open>uploadResponse (sample_network progress_stream) i
             = Some (json_response ''{"uploaded":1}'')\<close> for i
    by (simp add: sample_network_def)
  have k: \<open>ok (json_response ''{"uploaded":1}'')\<close>
    by (simp add: json_response_def)
  have j: \<open>json_object sample_parse (json_response ''{"uploaded":1}'')\<close>
    by (simp add: json_response_def json_object_def sample_parse_def get_prop_def)
  have up: "\<forall>i<3. \<exists>resp. uploadResponse (sample_network progress_stream) i = Some resp \<and> ok resp
                 \<and> json_object sample_parse resp"
    using u k j by blast
  have init: "init_and_uploads_ok sample_parse (sample_network progress_stream) 3"
    by (rule sample_network_ok)
  have fin: "finalizeResponse (sample_network progress_stream)
               = Some (stream_response progress_stream)"
    by (simp add: sample_network_def)
  have okr: "ok (stream_response progress_stream)"
    and rd: "reads (stream_response progress_stream)
       = Some [sse_text (concat (map (\<lambda>e. progress_event (fst e)) three_progress_events))]"
    by (simp_all add: stream_response_def progress_stream_def)
  have ps: "map (\<lambda>e. sample_parse (fst e)) three_progress_events
       = [Some (progress_payload 0 ''start''), Some (progress_payload 50 ''x''),
          Some (progress_payload 100 ''done'')]"
    by (simp add: three_progress_events_def sample_parse_def progress_payload_def)
  have ks: "map (\<lambda>e. fst (snd e)) three_progress_events = [0, 50, 100]"
    by (simp add: three_progress_events_def)
  have so: "sorted (map (\<lambda>e. fst (snd e)) three_progress_events)"
    by (simp add: three_progress_events_def)
  have mp3: "map (\<lambda>e. mappedPct (real (fst (snd e)))) three_progress_events = [45, 72, 100]"
    by (simp add: three_progress_events_def mappedPct_def)
  note inst = chunked_progress_ranges[where chunks = three_chunks
      and upload = "uploadResponse (sample_network progress_stream)"
      and parse = sample_parse and cbs = "[]" and coerce = no_coercion
      and net = "sample_network progress_stream" and resp = "stream_response progress_stream"
      and events = three_progress_events]
  from inst[THEN conjunct1] len up
  have loop: "\<exists>s1 s2 s3. upload_loop sample_parse (uploadResponse (sample_network progress_stream)) 3 0
                     three_chunks [] =
        ([OnProgress (JNum 10) s1, OnProgress (JNum 20) s2, OnProgress (JNum 30) s3], None)"
    by simp
  have i: "(1::nat) < 3" by simp
  from inst have range: "\<forall>i n. i < n \<longrightarrow> 10 \<le> chunkProgress i n \<and> chunkProgress i n < 40"
    by (elim conjE) assumption
  from range i have cp: "10 \<le> chunkProgress 1 3 \<and> chunkProgress 1 3 < 40" by blast
  have pq: "(0::real) \<le> 20 \<and> (20::real) \<le> 80 \<and> (80::real) \<le> 100" by simp
  from inst have mono: "\<forall>p q. 0 \<le> p \<and> p \<le> q \<and> q \<le> 100
        \<longrightarrow> mappedPct p \<le> mappedPct q
            \<and> 45 \<le> mappedPct p \<and> mappedPct p \<le> 100
            \<and> 45 \<le> mappedPct q \<and> mappedPct q \<le> 100"
    by (elim conjE) assumption
  from mono pq have mq: "mappedPct 20 \<le> mappedPct 80 \<and> 45 \<le> mappedPct 20 \<and> mappedPct 80 \<le> 100"
    by blast
  from inst have hd: "\<forall>k s. k \<le> 100
        \<longrightarrow> handle_data (remap_progress no_coercion) ''progress'' (progress_payload k s) []
              = ([] @ [OnProgress (JNum (of_int (mappedPct (real k))))
                          (JStr (if s = [] then ''Processing...'' else s))], Completed)"
    by (elim conjE) assumption
  have fifty: "(50::nat) \<le> 100" by simp
  have m50: "mappedPct (real 50) = 72" by (simp add: mappedPct_def)
  from hd fifty
  have "handle_data (remap_progress no_coercion) ''progress'' (progress_payload 50 ''x'') []
          = ([] @ [OnProgress (JNum (of_int (mappedPct (real 50))))
                     (JStr (if ''x'' = [] then ''Processing...'' else ''x''))], Completed)"
    by blast
  then have h50: "handle_data (remap_progress no_coercion) ''progress'' (progress_payload 50 ''x'') []
       = ([OnProgress (JNum 72) (JStr ''x'')], Completed)"
    unfolding m50 by simp
  from inst have e2e: "length three_chunks = 3
      \<and> init_and_uploads_ok sample_parse (sample_network progress_stream) 3
      \<and> finalizeResponse (sample_network progress_stream) = Some (stream_response progress_stream)
      \<and> ok (stream_response progress_stream)
      \<and> reads (stream_response progress_stream)
          = Some [sse_text (concat (map (\<lambda>e. progress_event (fst e)) three_progress_events))]
      \<and> (\<forall>e\<in>set three_progress_events. CHR 0x0A \<notin> set (fst e)
            \<and> sample_parse (fst e) = Some (progress_payload (fst (snd e)) (snd (snd e)))
            \<and> fst (snd e) \<le> 100)
     \<longrightarrow> reported_percentages
           (fst (chunked_share sample_parse no_coercion (sample_network progress_stream) three_chunks))
           = map (\<lambda>x. JNum (of_int x))
               ([5, 8, 10, 20, 30, 42]
                @ map (\<lambda>e. mappedPct (real (fst (snd e)))) three_progress_events)
         \<and> (\<forall>x\<in>set ([5, 8, 10, 20, 30, 42]
                       @ map (\<lambda>e. mappedPct (real (fst (snd e)))) three_progress_events).
               5 \<le> x \<and> x \<le> 100)
         \<and> (sorted (map (\<lambda>e. fst (snd e)) three_progress_events)
             \<longrightarrow> sorted ([5, 8, 10, 20, 30, 42]
                          @ map (\<lambda>e. mappedPct (real (fst (snd e)))) three_progress_events))"
    by (elim conjE) assumption
  have both: "reported_percentages
           (fst (chunked_share sample_parse no_coercion (sample_network progress_stream) three_chunks))
           = map (\<lambda>x. JNum (of_int x))
               ([5, 8, 10, 20, 30, 42]
                @ map (\<lambda>e. mappedPct (real (fst (snd e)))) three_progress_events)
         \<and> (\<forall>x\<in>set ([5, 8, 10, 20, 30, 42]
                       @ map (\<lambda>e. mappedPct (real (fst (snd e)))) three_progress_events).
               5 \<le> x \<and> x \<le> 100)
         \<and> (sorted (map (\<lambda>e. fst (snd e)) three_progress_events)
             \<longrightarrow> sorted ([5, 8, 10, 20, 30, 42]
                          @ map (\<lambda>e. mappedPct (real (fst (snd e)))) three_progress_events))"
    using len init fin okr rd three_progress_events_parse by (intro HOL.mp[OF e2e] conjI)
  from both[THEN conjunct1]
  have rep: "reported_percentages
        (fst (chunked_share sample_parse no_coercion (sample_network progress_stream) three_chunks))
       = [JNum 5, JNum 8, JNum 10, JNum 20, JNum 30, JNum 42, JNum 45, JNum 72, JNum 100]"
    unfolding mp3 by simp
  from both[THEN conjunct2, THEN conjunct2] so
  have "sorted ([5, 8, 10, 20, 30, 42]
                 @ map (\<lambda>e. mappedPct (real (fst (snd e)))) three_progress_events)"
    by blast
  then have srt: "sorted [5, 8, 10, 20, 30, 42, 45, 72, 100::int]"
    unfolding mp3 by simp
  from len u[of 0] u[of 1] u[of 2] k j loop i cp pq mq init fin okr rd ps ks fifty h50 rep srt
  show ?thesis by (intro conjI) (simp_all only: simp_thms)
qed

text \<open>The same share, callback by callback.\<close>

lemma chunked_share_progress_trace:
  "map (\<lambda>cb. case cb of OnProgress pct step \<Rightarrow> pct | OnError m \<Rightarrow> m)
     (fst (chunked_share sample_parse no_coercion (sample_network progress_stream) three_chunks))
     = [JNum 5, JNum 8, JNum 10, JNum 20, JNum 30, JNum 42, JNum 45, JNum 72, JNum 100]"
  by code_simp
text \<open>
  The stream of the specification's example: one progress event, then \<^verbatim>\<open>complete\<close>.
\<close>

lemma progress_then_complete:
  "callShareWithSSE sample_parse (Some (stream_response progress_complete_stream))
     = ([OnProgress (JNum 50) (JStr ''x'')],
        Resolved \<lparr>inflightUrl = JStr ''https://x'', versionId = JUndefined,
                  projectId = JUndefined, sandboxId = JUndefined, sandboxUrl = JUndefined,
                  previewUrl = JUndefined, ngrokUrl = JUndefined, diffSummary = JUndefined\<rparr>)"
  by code_simp

text \<open>
  An \<^verbatim>\<open>error\<close> event is rethrown only when \<^verbatim>\<open>String(data.message || "Share failed")\<close>
  is the text \<^verbatim>\<open>Share failed\<close>; with any other message the \<^verbatim>\<open>catch\<close> swallows the
  error it was meant to rethrow.
\<close>

lemma handle_data_error_event:
  "handle_data mapPct ''error'' (JObj [(''message'', JStr m)]) cbs =
     (if m = [] \<or> m = ''Share failed''
      then (cbs @ [OnError (JStr ''Share failed'')], Rethrown (Error ''Share failed''))
      else (cbs @ [OnError (JStr m)], Swallowed))"
  by (auto simp: handle_data_def get_prop_def js_or_def Let_def)

text \<open>
  Claim C2 fails on the code. The server sends an \<^verbatim>\<open>error\<close> event with the message
  \<^verbatim>\<open>Build failed\<close>: the error callback is called, the error raised for the event is
  swallowed, and the relay goes on reading. The share then ends with the
  ``stream ended without completion'' error, or even resolves when a \<^verbatim>\<open>complete\<close>
  event follows. Only the message \<^verbatim>\<open>Share failed\<close> propagates.
\<close>

theorem error_event_message_swallowed:
  "callShareWithSSE sample_parse (Some (stream_response build_failed_stream))
     = ([OnError (JStr ''Build failed'')],
        Rejected (Error ''Share stream ended without completion''))
   \<and> callShareWithSSE sample_parse (Some (stream_response build_failed_then_complete_stream))
     = ([OnError (JStr ''Build failed'')],
        Resolved \<lparr>inflightUrl = JStr ''https://x'', versionId = JUndefined,
                  projectId = JUndefined, sandboxId = JUndefined, sandboxUrl = JUndefined,
                  previewUrl = JUndefined, ngrokUrl = JUndefined, diffSummary = JUndefined\<rparr>)
   \<and> snd (callChunkedShare sample_parse no_coercion
             (sample_network build_failed_then_complete_stream) [(''a.ts'', Text ''a'')])
     = Resolved \<lparr>inflightUrl = JStr ''https://x'', versionId = JUndefined,
                 projectId = JUndefined, sandboxId = JUndefined, sandboxUrl = JUndefined,
                 previewUrl = JUndefined, ngrokUrl = JUndefined, diffSummary = JUndefined\<rparr>
   \<and> callShareWithSSE sample_parse (Some (stream_response share_failed_stream))
     = ([OnError (JStr ''Share failed'')], Rejected (Error ''Share failed''))"
  by code_simp

section \<open>Dependency analyzer: lemmas\<close>

lemma set_set_add: "set (set_add x xs) = insert x (set xs)"
  by (auto simp: set_add_def)

lemma distinct_set_add: "distinct xs \<Longrightarrow> distinct (set_add x xs)"
  by (simp add: set_add_def)

lemma fold_set_add_entries:
  "distinct acc \<Longrightarrow>
   distinct (foldl (\<lambda>s entry. set_add entry s) acc es)
   \<and> set (foldl (\<lambda>s entry. set_add entry s) acc es) = set acc \<union> set es"
  by (induction es arbitrary: acc) (auto simp: set_set_add distinct_set_add)

lemma files_kept_refl: "files_kept st st"
  by (simp add: files_kept_def)

lemma files_kept_same: "st_resolvedFiles st' = st_resolvedFiles st \<Longrightarrow> files_kept st st'"
  by (simp add: files_kept_def)

lemma files_kept_add_resolved: "files_kept st (add_resolved found st)"
  by (cases found) (auto simp: add_resolved_def files_kept_def set_set_add distinct_set_add)

lemma files_add_npm: "st_resolvedFiles (add_npm packageName p st) = st_resolvedFiles st"
  by (simp add: add_npm_def Let_def)

lemma files_scoped_workspace:
  "scoped_workspace env rootPath packageName p wsPaths st = Some st' \<Longrightarrow>
   st_resolvedFiles st' = st_resolvedFiles st"
  by (induction wsPaths) (auto simp: Let_def split: if_splits)

lemma files_kept_scoped: "files_kept st (on_resolve_scoped env rootPath p st)"
  by (rule files_kept_same)
     (auto simp: on_resolve_scoped_def Let_def files_add_npm files_scoped_workspace
           split: option.splits)

lemma files_kept_alias:
  "resolve_by_alias env rootPath aliases p st = Some st' \<Longrightarrow> files_kept st st'"
  by (induction aliases)
     (auto simp: on_resolve_alias_def Let_def files_kept_add_resolved split: if_splits)

lemma files_kept_step: "files_kept st (plugin_step env rootPath aliases st e)"
proof (cases e)
  case (ResolveRequest p importer)
  show ?thesis
  proof (cases "resolve_by_alias env rootPath aliases p st")
    case (Some st')
    with ResolveRequest files_kept_alias[OF Some] show ?thesis by simp
  next
    case None
    with ResolveRequest show ?thesis
      by (simp add: files_kept_scoped on_resolve_bare_def files_kept_same files_add_npm
          on_resolve_relative_def Let_def files_kept_add_resolved files_kept_refl)
  qed
next
  case (LoadRequest p)
  then show ?thesis
    by (simp add: on_load_def files_kept_def set_set_add distinct_set_add subset_insertI)
qed

lemma files_kept_fold:
  "distinct (st_resolvedFiles st) \<Longrightarrow>
   distinct (st_resolvedFiles (foldl (plugin_step env rootPath aliases) st es))
   \<and> set (st_resolvedFiles st)
       \<subseteq> set (st_resolvedFiles (foldl (plugin_step env rootPath aliases) st es))"
proof (induction es arbitrary: st)
  case Nil
  then show ?case by simp
next
  case (Cons e es)
  from files_kept_step[of st env rootPath aliases e] Cons.prems
  have d: "distinct (st_resolvedFiles (plugin_step env rootPath aliases st e))"
    and s: "set (st_resolvedFiles st)
              \<subseteq> set (st_resolvedFiles (plugin_step env rootPath aliases st e))"
    by (simp_all add: files_kept_def)
  from Cons.IH[OF d] s show ?case by auto
qed

text \<open>
  Claim C4. For every project root, entry-point list and alias map, and whatever the
  bundler asks of the plugin, the \<open>localFiles\<close> of the resolution result are sorted, hold
  no duplicate, and include every entry point.
\<close>

theorem localFiles_sorted_distinct_superset:
  "sorted (localFiles (analyzeDependencies env events rootPath entries aliases))
   \<and> distinct (localFiles (analyzeDependencies env events rootPath entries aliases))
   \<and> set entries \<subseteq> set (localFiles (analyzeDependencies env events rootPath entries aliases))"
proof -
  let ?st0 = "\<lparr>st_resolvedFiles = foldl (\<lambda>s entry. set_add entry s) [] entries,
               st_npmPackages = [], st_workspacePackages = []\<rparr>"
  have e: "distinct (st_resolvedFiles ?st0) \<and> set (st_resolvedFiles ?st0) = set entries"
    using fold_set_add_entries[of "[]" entries] by simp
  from e files_kept_fold[of ?st0 env rootPath aliases events]
  have "distinct (st_resolvedFiles (foldl (plugin_step env rootPath aliases) ?st0 events))"
    and "set entries \<subseteq> set (st_resolvedFiles (foldl (plugin_step env rootPath aliases) ?st0 events))"
    by simp_all
  then show ?thesis
    by (simp add: analyzeDependencies_def Let_def)
qed

lemma sample_resolution:
  "localFiles (analyzeDependencies sample_node_env sample_events ''/p'' [''src/App.tsx'']
                 [(''@/'', ''./src/'')])
     = [''src/App.tsx'', ''src/Button.tsx'']"
  by code_simp

text \<open>
  The short circuit: when no record of a changed file is UI-relevant and not deleted,
  \<open>analyzeProjectDependencies\<close> returns the changed files with empty dependencies (no
  local file, no npm package, no workspace package) and no entry point. The result
  mentions neither the requests of the bundler nor the file system: no resolution is
  attempted, and the function returns a result, not an error.
\<close>

lemma short_circuit_without_entry_points:
  assumes "\<forall>f \<in> set (changed_file_records penv changed base).
             \<not> (cf_isUIRelevant f \<and> cf_changeType f \<noteq> Deleted)"
  shows "analyzeProjectDependencies penv env events changed base =
         \<lparr>changedFiles = changed_file_records penv changed base,
          dependencies = \<lparr>localFiles = [], npmPackages = [], workspacePackages = []\<rparr>,
          metadata = \<lparr>projectRoot = root_dir penv, entryPoints = [],
                      analysisTimeMs = now_end penv - now_start penv,
                      pathAliases = loaded_aliases penv\<rparr>\<rparr>"
proof -
  from assms have "filter (\<lambda>f. cf_isUIRelevant f \<and> cf_changeType f \<noteq> Deleted)
               (changed_file_records penv changed base) = []"
    by (simp add: filter_empty_conv)
  then show ?thesis
    by (simp add: analyzeProjectDependencies_def Let_def)
qed

lemma short_circuit_example:
  "analyzeProjectDependencies sample_project sample_node_env sample_events
        (Some [''README.md'', ''src/util.ts'']) None =
       \<lparr>changedFiles =
          [\<lparr>cf_path = ''README.md'', cf_changeType = Modified, cf_isUIRelevant = False\<rparr>,
           \<lparr>cf_path = ''src/util.ts'', cf_changeType = Modified, cf_isUIRelevant = False\<rparr>],
        dependencies = \<lparr>localFiles = [], npmPackages = [], workspacePackages = []\<rparr>,
        metadata = \<lparr>projectRoot = ''/p'', entryPoints = [], analysisTimeMs = 42,
                    pathAliases = [(''@/'', ''./src/'')]\<rparr>\<rparr>"
  by code_simp

text \<open>
  No record is ever a deleted one: both sources of the records give every file the
  change type \<^verbatim>\<open>modified\<close>.
\<close>

lemma parseChangedFilesFromDiff_modified:
  "f \<in> set (parseChangedFilesFromDiff d) \<Longrightarrow> cf_changeType f = Modified"
  by (auto simp: parseChangedFilesFromDiff_def split: option.splits)

lemma changed_file_records_modified:
  assumes "f \<in> set (changed_file_records penv changed base)"
  shows "cf_changeType f = Modified"
proof -
  let ?git = "if isGitRepo (git penv) then
                (case getGitDiff (git penv) 500000 base of
                   Some diffResult \<Rightarrow> parseChangedFilesFromDiff (diff diffResult)
                 | None \<Rightarrow> [])
              else []"
  have from_git: "cf_changeType f = Modified" if "f \<in> set ?git"
  proof (cases "isGitRepo (git penv)")
    case False
    with that show ?thesis by simp
  next
    case True
    show ?thesis
    proof (cases "getGitDiff (git penv) 500000 base")
      case None
      with True that show ?thesis by simp
    next
      case (Some diffResult)
      with True that show ?thesis by (simp add: parseChangedFilesFromDiff_modified)
    qed
  qed
  show ?thesis
  proof (cases changed)
    case None
    then have eq: "changed_file_records penv changed base = ?git"
      by (simp add: changed_file_records_def)
    from assms have "f \<in> set ?git" unfolding eq .
    then show ?thesis by (rule from_git)
  next
    case (Some given)
    show ?thesis
    proof (cases given)
      case Nil
      with Some have eq: "changed_file_records penv changed base = ?git"
        by (simp add: changed_file_records_def)
      from assms have "f \<in> set ?git" unfolding eq .
      then show ?thesis by (rule from_git)
    next
      case (Cons p ps)
      with Some have "changed_file_records penv changed base
          = map (\<lambda>f. \<lparr>cf_path = f, cf_changeType = Modified, cf_isUIRelevant = isUIRelevant f\<rparr>)
              (p # ps)"
        by (simp add: changed_file_records_def)
      with assms show ?thesis by auto
    qed
  qed
qed

text \<open>
  Claim C9 fails on the code for a change set whose UI-relevant file is deleted. The
  branch deletes \<^verbatim>\<open>src/App.tsx\<close> and changes nothing else, so the change set holds no
  UI-relevant file that is not deleted. The diff says \<^verbatim>\<open>deleted file mode\<close>, the record
  of the file says \<^verbatim>\<open>modified\<close>, the deleted file becomes the entry point, and the
  resolution runs on it, whatever the bundler then asks: the result is not the empty
  one.
\<close>

theorem deleted_file_is_entry_point:
  "map_option diff (getGitDiff repo_deleted_file 500000 None) = Some deleted_file_diff
   \<and> take 2 (split_on (CHR 0x0A) deleted_file_diff)
       = [''diff --git a/src/App.tsx b/src/App.tsx'', ''deleted file mode 100644'']
   \<and> changed_file_records deleted_file_project None None
       = [\<lparr>cf_path = ''src/App.tsx'', cf_changeType = Modified, cf_isUIRelevant = True\<rparr>]
   \<and> analyzeProjectDependencies deleted_file_project env events None None
       = \<lparr>changedFiles =
            [\<lparr>cf_path = ''src/App.tsx'', cf_changeType = Modified, cf_isUIRelevant = True\<rparr>],
          dependencies = analyzeDependencies env events ''/p'' [''src/App.tsx''] [],
          metadata = \<lparr>projectRoot = ''/p'', entryPoints = [''src/App.tsx''],
                      analysisTimeMs = 42, pathAliases = []\<rparr>\<rparr>
   \<and> localFiles (analyzeDependencies sample_node_env [] ''/p'' [''src/App.tsx''] [])
       = [''src/App.tsx'']"
proof -
  have d: "map_option diff (getGitDiff repo_deleted_file 500000 None) = Some deleted_file_diff"
    by code_simp
  have l: "take 2 (split_on (CHR 0x0A) deleted_file_diff)
       = [''diff --git a/src/App.tsx b/src/App.tsx'', ''deleted file mode 100644'']"
    by code_simp
  have r: "changed_file_records deleted_file_project None None
       = [\<lparr>cf_path = ''src/App.tsx'', cf_changeType = Modified, cf_isUIRelevant = True\<rparr>]"
    by code_simp
  have a: "analyzeProjectDependencies deleted_file_project env events None None
       = \<lparr>changedFiles =
            [\<lparr>cf_path = ''src/App.tsx'', cf_changeType = Modified, cf_isUIRelevant = True\<rparr>],
          dependencies = analyzeDependencies env events ''/p'' [''src/App.tsx''] [],
          metadata = \<lparr>projectRoot = ''/p'', entryPoints = [''src/App.tsx''],
                      analysisTimeMs = 42, pathAliases = []\<rparr>\<rparr>"
    unfolding analyzeProjectDependencies_def Let_def r
    by (simp add: deleted_file_project_def)
  have f: "localFiles (analyzeDependencies sample_node_env [] ''/p'' [''src/App.tsx''] [])
       = [''src/App.tsx'']"
    by code_simp
  from d l r a f show ?thesis by (intro conjI)
qed

end
